theory Spec2Isabelle
  imports Main
begin

section \<open>JavaScript strings and numbers\<close>

text \<open>
  Strings are \<open>char list\<close>. A \<open>char\<close> is a code unit below 256 and stands for the
  character with that code (U+0000 to U+00FF), so \<open>CHR 0xA0\<close> is the no-break space;
  the strings of the model are the JavaScript strings made of these characters. That
  covers what the scripts look at: decimal numbers, the tag names of the target lists,
  the \<open>link\<close> and \<open>Retry-After\<close> headers (which \<open>fetch\<close> hands over with one code unit
  for each byte). \<open>trim\<close>, \<open>parseInt\<close> and \<open>toLowerCase\<close> below treat every character of
  this range as JavaScript does.
  A value that JavaScript may leave \<open>undefined\<close> or \<open>null\<close> is an \<open>option\<close>, and
  \<open>NaN\<close> is \<open>None\<close> of a numeric option.
\<close>

definition digitChar :: "nat \<Rightarrow> char" where
  "digitChar d = ''0123456789'' ! d"

text \<open>\<open>String(n)\<close> for a non-negative integer that JavaScript prints in plain decimal.\<close>

fun String_nat :: "nat \<Rightarrow> string" where
  "String_nat n =
     (if n < 10 then [digitChar n] else String_nat (n div 10) @ [digitChar (n mod 10)])"

declare String_nat.simps [simp del]

text \<open>\<open>s.padStart(n, c)\<close> with a pad string of one character.\<close>

definition padStart :: "nat \<Rightarrow> char \<Rightarrow> string \<Rightarrow> string" where
  "padStart n c s = replicate (n - length s) c @ s"

text \<open>\<open>s.slice(-k)\<close>: the last \<open>k\<close> characters, the whole string when it is shorter.\<close>

definition slice_last :: "nat \<Rightarrow> string \<Rightarrow> string" where
  "slice_last k s = drop (length s - k) s"

definition isDigit :: "char \<Rightarrow> bool" where
  "isDigit c = (c \<in> set ''0123456789'')"

definition digitVal :: "char \<Rightarrow> nat" where
  "digitVal c = of_char c - 48"

text \<open>\<open>s[i]\<close>: the character at index \<open>i\<close>, \<open>undefined\<close> out of range.\<close>

definition charAt :: "string \<Rightarrow> nat \<Rightarrow> char option" where
  "charAt s i = (if i < length s then Some (s ! i) else None)"

text \<open>
  \<open>parseInt(x)\<close> where \<open>x\<close> is a string of one character or \<open>undefined\<close>: a decimal
  digit gives its value, everything else \<open>NaN\<close>.
\<close>

definition parseInt_char :: "char option \<Rightarrow> nat option" where
  "parseInt_char x =
     (case x of None \<Rightarrow> None
      | Some c \<Rightarrow> if isDigit c then Some (digitVal c) else None)"

section \<open>generateUniqueBarcode\<close>

text \<open>
  \<^verbatim>\<open>const baseCode = `200${String(productId).padStart(6, '0').slice(-6)}${String(index).padStart(3, '0')}`;\<close>
  The product id and the index are non-negative integers (Shopify ids, array positions).
\<close>

definition baseCode :: "nat \<Rightarrow> nat \<Rightarrow> string" where
  "baseCode productId index =
     ''200'' @ slice_last 6 (padStart 6 (CHR ''0'') (String_nat productId))
       @ padStart 3 (CHR ''0'') (String_nat index)"

text \<open>
  The loop \<^verbatim>\<open>for (let i = 0; i < 12; i++) { digit = parseInt(baseCode[i]); sum += i % 2 === 0 ? digit : digit * 3; }\<close>
  with the running \<open>sum\<close> (here \<open>acc\<close>) a number that may be \<open>NaN\<close>.
\<close>

definition addNumber :: "nat option \<Rightarrow> nat option \<Rightarrow> nat option" where
  "addNumber a b = (case a of None \<Rightarrow> None | Some x \<Rightarrow> map_option (\<lambda>y. x + y) b)"

function checksumLoop :: "string \<Rightarrow> nat \<Rightarrow> nat option \<Rightarrow> nat option" where
  "checksumLoop code i acc =
     (if i < 12
      then (let digit = parseInt_char (charAt code i)
            in checksumLoop code (i + 1)
                 (addNumber acc (if i mod 2 = 0 then digit else map_option (\<lambda>d. d * 3) digit)))
      else acc)"
  by pat_completeness auto
termination
  by (relation "measure (\<lambda>(code, i, acc). 12 - i)") auto

declare checksumLoop.simps [simp del]

text \<open>
  \<^verbatim>\<open>const checkDigit = (10 - (sum % 10)) % 10; return baseCode + checkDigit;\<close>
  (a \<open>NaN\<close> sum would append the text \<open>NaN\<close>).
\<close>

definition generateUniqueBarcode :: "nat \<Rightarrow> nat \<Rightarrow> string" where
  "generateUniqueBarcode productId index =
     (let code = baseCode productId index
      in code @ (case checksumLoop code 0 (Some 0) of
                   None \<Rightarrow> ''NaN''
                 | Some acc \<Rightarrow> String_nat ((10 - acc mod 10) mod 10)))"

section \<open>The EAN-13 weights\<close>

text \<open>
  Specification side: position \<open>i\<close> of a code (counted from 0) has weight 1 when
  \<open>i\<close> is even and 3 when it is odd.
\<close>

definition eanWeight :: "nat \<Rightarrow> nat" where
  "eanWeight i = (if i mod 2 = 0 then 1 else 3)"

section \<open>Catalogue data\<close>

text \<open>
  The objects of the Admin API that the scripts read. A barcode, a description or a
  metafield value may be missing (\<open>null\<close> or \<open>undefined\<close>); JavaScript treats a missing
  string and the empty string alike where it tests them (\<open>!x\<close>, \<open>x || y\<close>).
\<close>

definition truthy :: "string option \<Rightarrow> bool" where
  "truthy x = (case x of None \<Rightarrow> False | Some s \<Rightarrow> s \<noteq> [])"

record variant =
  variant_id :: nat
  barcode :: "string option"

record product =
  product_id :: nat
  title :: string
  tags :: string
  body_html :: "string option"
  variants :: "variant list"

record metafield =
  namespace :: string
  meta_key :: string
  meta_value :: "string option"

text \<open>
  What \<open>res.json()\<close> gives for a body that parses: \<open>data.products\<close> (an array in every
  answer of the products endpoint; the scripts never test it) and \<open>data.metafields\<close>,
  which the scripts default to \<open>[]\<close> when it is absent.
\<close>

record json_data =
  products :: "product list"
  metafields :: "metafield list option"

section \<open>Requests, responses and the outside world\<close>

datatype http_method = GET | PUT

record product_update =
  update_id :: nat
  update_body_html :: "string option"
  update_variants :: "(nat \<times> string) list option"

datatype payload =
    NoBody
  | ProductUpdate product_update
  | VariantUpdate nat string

record request =
  url :: string
  meth :: http_method
  headers :: "(string \<times> string) list"
  body :: payload

record response =
  status :: nat
  statusText :: string
  retryAfter :: "string option"
  link :: "string option"
  body_text :: string
  body_json :: "json_data option"

text \<open>\<open>res.ok\<close>: the status is in the range 200 to 299.\<close>

definition ok :: "response \<Rightarrow> bool" where
  "ok res = (200 \<le> status res \<and> status res \<le> 299)"

text \<open>A call of \<open>fetch\<close> resolves with a response or rejects (a network failure).\<close>

datatype fetch_result = Responded response | Rejected string

text \<open>The errors the scripts throw or let through.\<close>

datatype error =
    HttpError nat string
  | RetriesExhausted nat string
  | HttpErrorText nat string
  | FetchFailed string
  | JsonError
  | TypeError

text \<open>
  Of the console output the model keeps the lines that report a failure
  (\<open>console.warn\<close>, \<open>console.error\<close>) and the lines that report a generated barcode;
  the other progress lines of \<open>console.log\<close> are not events. A line is its kind and its
  arguments, not its text.
\<close>

datatype log_line =
    WarnRateLimit "int option"
  | ErrorRequest nat nat error
  | ErrorMissingEnv
  | WarnNoUniqueBarcode nat
  | InfoNewBarcode string nat string
  | ErrorUpdate string error
  | ErrorGeneral error
  | InfoCodeGenerated string nat
  | ErrorUpdating string error
  | ErrorVariant nat error
  | ErrorNotAuthentic
  | ErrorInvalidData
  | ErrorHandler error

datatype event =
    Requested request
  | Slept "int option"
  | Logged log_line

text \<open>
  The world: how many calls of \<open>fetch\<close> were made, and everything the script did so far.
  The server is any function from the number of earlier calls and the request to the
  outcome of the call; every theorem holds for all servers.
\<close>

record world =
  served :: nat
  trace :: "event list"

type_synonym server = "nat \<Rightarrow> request \<Rightarrow> fetch_result"

definition fetch :: "server \<Rightarrow> request \<Rightarrow> world \<Rightarrow> fetch_result \<times> world" where
  "fetch srv req w =
     (srv (served w) req, w\<lparr>served := served w + 1, trace := trace w @ [Requested req]\<rparr>)"

text \<open>\<open>await sleep(ms)\<close>; the argument is a number, \<open>NaN\<close> included.\<close>

definition sleep :: "int option \<Rightarrow> world \<Rightarrow> world" where
  "sleep ms w = w\<lparr>trace := trace w @ [Slept ms]\<rparr>"

definition console :: "log_line \<Rightarrow> world \<Rightarrow> world" where
  "console l w = w\<lparr>trace := trace w @ [Logged l]\<rparr>"

section \<open>parseInt\<close>

text \<open>
  The white space of JavaScript (\<open>WhiteSpace\<close> and \<open>LineTerminator\<close> of the language
  definition), which \<open>trim\<close> removes and \<open>parseInt\<close> skips: of the characters below
  U+0100 these are TAB, LF, VT, FF, CR, the space and the no-break space U+00A0.
\<close>

definition isSpace :: "char \<Rightarrow> bool" where
  "isSpace c =
     (c \<in> set [CHR 0x09, CHR 0x0A, CHR 0x0B, CHR 0x0C, CHR 0x0D, CHR 0x20, CHR 0xA0])"

text \<open>
  \<open>parseInt(s, 10)\<close>: leading white space is skipped, a sign is read, then the longest
  run of decimal digits; no digit gives \<open>NaN\<close>. The digits denote their exact integer.
\<close>

definition digitsValue :: "string \<Rightarrow> nat" where
  "digitsValue ds = foldl (\<lambda>a c. 10 * a + digitVal c) 0 ds"

definition parseInt10 :: "string \<Rightarrow> int option" where
  "parseInt10 s =
     (let t = dropWhile isSpace s;
          neg = (t \<noteq> [] \<and> hd t = CHR ''-'');
          u = (if t \<noteq> [] \<and> (hd t = CHR ''-'' \<or> hd t = CHR ''+'') then tl t else t);
          ds = takeWhile isDigit u
      in if ds = [] then None
         else Some (if neg then - int (digitsValue ds) else int (digitsValue ds)))"

section \<open>shopifyFetch\<close>

text \<open>
  \<^verbatim>\<open>const retryAfter = parseInt(res.headers.get("Retry-After") || "2", 10);\<close>
\<close>

definition retryAfterSeconds :: "response \<Rightarrow> int option" where
  "retryAfterSeconds res =
     parseInt10 (case retryAfter res of None \<Rightarrow> ''2''
                 | Some h \<Rightarrow> if h = [] then ''2'' else h)"

text \<open>
  The helper of the two batch scripts (api/update-products-barra.js and the second
  update script have the same text). The loop variable \<open>i\<close> is an argument.
\<close>

function shopifyFetch_from :: "server \<Rightarrow> request \<Rightarrow> nat \<Rightarrow> nat \<Rightarrow> world \<Rightarrow> (error + response) \<times> world" where
  "shopifyFetch_from srv req retries i w =
     (if i < retries then
        (case fetch srv req w of
           (Rejected msg, w1) \<Rightarrow> (Inl (FetchFailed msg), w1)
         | (Responded res, w1) \<Rightarrow>
             if status res = 429 then
               shopifyFetch_from srv req retries (i + 1)
                 (sleep (map_option (\<lambda>s. s * 1000) (retryAfterSeconds res))
                    (console (WarnRateLimit (retryAfterSeconds res)) w1))
             else if \<not> ok res then (Inl (HttpError (status res) (statusText res)), w1)
             else (Inr res, w1))
      else (Inl (RetriesExhausted retries (url req)), w))"
  by pat_completeness auto
termination
  by (relation "measure (\<lambda>(srv, req, retries, i, w). retries - i)") auto

declare shopifyFetch_from.simps [simp del]

definition shopifyFetch :: "server \<Rightarrow> request \<Rightarrow> nat \<Rightarrow> world \<Rightarrow> (error + response) \<times> world" where
  "shopifyFetch srv req retries w = shopifyFetch_from srv req retries 0 w"

text \<open>
  The helper of the webhook function (netlify/functions/product-created.js). Each
  attempt runs inside \<open>try\<close>: an error response and a rejected \<open>fetch\<close> both reach the
  \<open>catch\<close>, which throws only at the last attempt (\<open>i === retries - 1\<close>) and otherwise
  sleeps one second and goes on. When the loop runs out the function ends without a
  \<open>return\<close>: the result is \<open>undefined\<close>, here \<open>Inr None\<close>.
\<close>

function shopifyFetch_webhook_from :: "server \<Rightarrow> request \<Rightarrow> nat \<Rightarrow> nat \<Rightarrow> world \<Rightarrow> (error + response option) \<times> world" where
  "shopifyFetch_webhook_from srv req retries i w =
     (if i < retries then
        (case fetch srv req w of
           (Rejected msg, w1) \<Rightarrow>
             (let w2 = console (ErrorRequest (i + 1) retries (FetchFailed msg)) w1
              in if i = retries - 1 then (Inl (FetchFailed msg), w2)
                 else shopifyFetch_webhook_from srv req retries (i + 1) (sleep (Some 1000) w2))
         | (Responded res, w1) \<Rightarrow>
             if status res = 429 then
               shopifyFetch_webhook_from srv req retries (i + 1)
                 (sleep (map_option (\<lambda>s. s * 1000) (retryAfterSeconds res))
                    (console (WarnRateLimit (retryAfterSeconds res)) w1))
             else if \<not> ok res then
               (let w2 = console (ErrorRequest (i + 1) retries
                                   (HttpErrorText (status res) (body_text res))) w1
                in if i = retries - 1 then (Inl (HttpErrorText (status res) (body_text res)), w2)
                   else shopifyFetch_webhook_from srv req retries (i + 1) (sleep (Some 1000) w2))
             else (Inr (Some res), w1))
      else (Inr None, w))"
  by pat_completeness auto
termination
  by (relation "measure (\<lambda>(srv, req, retries, i, w). retries - i)") auto

declare shopifyFetch_webhook_from.simps [simp del]

definition shopifyFetch_webhook :: "server \<Rightarrow> request \<Rightarrow> nat \<Rightarrow> world \<Rightarrow> (error + response option) \<times> world" where
  "shopifyFetch_webhook srv req retries w = shopifyFetch_webhook_from srv req retries 0 w"

section \<open>More of JavaScript's strings\<close>

text \<open>\<open>s.split(",")\<close>: the pieces between the commas; never the empty list.\<close>

fun split_comma :: "string \<Rightarrow> string list" where
  "split_comma [] = [[]]"
| "split_comma (c # cs) =
     (if c = CHR '','' then [] # split_comma cs
      else (case split_comma cs of
              piece # pieces \<Rightarrow> (c # piece) # pieces
            | [] \<Rightarrow> [[c]]))"

text \<open>\<open>s.trim()\<close>: the white space at both ends is removed.\<close>

definition trim :: "string \<Rightarrow> string" where
  "trim s = rev (dropWhile isSpace (rev (dropWhile isSpace s)))"

text \<open>
  \<open>s.toLowerCase()\<close>: of the characters below U+0100 the capital letters are \<open>A\<close> to
  \<open>Z\<close> (65 to 90) and U+00C0 to U+00DE without the multiplication sign U+00D7 (192 to
  222 without 215); the lower-case letter of each is 32 further on. Every other
  character stays.
\<close>

definition lowerChar :: "char \<Rightarrow> char" where
  "lowerChar c =
     (if ((65::nat) \<le> of_char c \<and> of_char c \<le> (90::nat))
         \<or> ((192::nat) \<le> of_char c \<and> of_char c \<le> (222::nat) \<and> of_char c \<noteq> (215::nat))
      then char_of (of_char c + (32::nat))
      else c)"

definition toLowerCase :: "string \<Rightarrow> string" where
  "toLowerCase s = map lowerChar s"

definition startsWith :: "string \<Rightarrow> string \<Rightarrow> bool" where
  "startsWith s p = (take (length p) s = p)"

text \<open>\<open>s.includes(p)\<close>: \<open>p\<close> occurs in \<open>s\<close>.\<close>

fun includes_str :: "string \<Rightarrow> string \<Rightarrow> bool" where
  "includes_str [] p = (p = [])"
| "includes_str (c # cs) p = (startsWith (c # cs) p \<or> includes_str cs p)"

text \<open>The text \<^verbatim>\<open>rel="next"\<close> and the text \<^verbatim>\<open>>; rel="next"\<close>.\<close>

definition rel_next :: string where
  "rel_next = ''rel='' @ [CHR 0x22] @ ''next'' @ [CHR 0x22]"

definition close_rel_next :: string where
  "close_rel_next = ''>; '' @ rel_next"

text \<open>
  \<^verbatim>\<open>linkHeader.match(/<([^>]+)>; rel="next"/)\<close>, the first group of the leftmost match.
  A match that starts at a given \<^verbatim>\<open><\<close> can only take the characters up to the
  next \<^verbatim>\<open>>\<close> for the group, so each start has one candidate.
\<close>

fun matchNext :: "string \<Rightarrow> string option" where
  "matchNext [] = None"
| "matchNext (c # cs) =
     (if c = CHR ''<'' \<and> takeWhile (\<lambda>x. x \<noteq> CHR ''>'') cs \<noteq> []
          \<and> startsWith (dropWhile (\<lambda>x. x \<noteq> CHR ''>'') cs) close_rel_next
      then Some (takeWhile (\<lambda>x. x \<noteq> CHR ''>'') cs)
      else matchNext cs)"

text \<open>
  \<^verbatim>\<open>if (linkHeader && linkHeader.includes('rel="next"')) { match = ...; url = match ? match[1] : null } else url = null\<close>
\<close>

definition nextUrl :: "response \<Rightarrow> string option" where
  "nextUrl res =
     (case link res of
        None \<Rightarrow> None
      | Some linkHeader \<Rightarrow>
          if linkHeader \<noteq> [] \<and> includes_str linkHeader rel_next then matchNext linkHeader
          else None)"

section \<open>Configuration and requests\<close>

record env =
  SHOPIFY_SHOP :: "string option"
  SHOPIFY_ADMIN_TOKEN :: "string option"
  SHOPIFY_API_VERSION :: "string option"
  SHOPIFY_WEBHOOK_SECRET :: "string option"

record config =
  SHOP :: string
  TOKEN :: string
  API_VERSION :: string

definition apiBase :: "config \<Rightarrow> string" where
  "apiBase cfg = ''https://'' @ SHOP cfg @ ''/admin/api/'' @ API_VERSION cfg"

definition jsonHeaders :: "config \<Rightarrow> (string \<times> string) list" where
  "jsonHeaders cfg =
     [(''X-Shopify-Access-Token'', TOKEN cfg), (''Content-Type'', ''application/json'')]"

definition productsUrl :: "config \<Rightarrow> string" where
  "productsUrl cfg = apiBase cfg @ ''/products.json?limit=250''"

definition pageRequest :: "config \<Rightarrow> string \<Rightarrow> request" where
  "pageRequest cfg u = \<lparr>url = u, meth = GET, headers = jsonHeaders cfg, body = NoBody\<rparr>"

definition metafieldsRequest :: "config \<Rightarrow> product \<Rightarrow> request" where
  "metafieldsRequest cfg p =
     \<lparr>url = apiBase cfg @ ''/products/'' @ String_nat (product_id p) @ ''/metafields.json'',
      meth = GET, headers = [(''X-Shopify-Access-Token'', TOKEN cfg)], body = NoBody\<rparr>"

definition updateRequest :: "config \<Rightarrow> nat \<Rightarrow> product_update \<Rightarrow> request" where
  "updateRequest cfg pid upd =
     \<lparr>url = apiBase cfg @ ''/products/'' @ String_nat pid @ ''.json'',
      meth = PUT, headers = jsonHeaders cfg, body = ProductUpdate upd\<rparr>"

definition variantRequest :: "config \<Rightarrow> nat \<Rightarrow> string \<Rightarrow> request" where
  "variantRequest cfg vid code =
     \<lparr>url = apiBase cfg @ ''/variants/'' @ String_nat vid @ ''.json'',
      meth = PUT, headers = jsonHeaders cfg, body = VariantUpdate vid code\<rparr>"

section \<open>fetchAllProducts\<close>

text \<open>
  \<^verbatim>\<open>while (url) { res = await shopifyFetch(url, ...); data = await res.json(); allProducts = allProducts.concat(data.products); url = <next link or null> }\<close>
  The loop ends only when a page has no next link, so the function is partial: \<open>None\<close>
  is a run that never returns. An error of \<open>shopifyFetch\<close> or of \<open>res.json()\<close> leaves the
  function as \<open>Inl\<close>.
\<close>

partial_function (option) fetchAllProducts_from ::
  "server \<Rightarrow> config \<Rightarrow> string option \<Rightarrow> product list \<Rightarrow> world
     \<Rightarrow> ((error + product list) \<times> world) option" where
  "fetchAllProducts_from srv cfg page allProducts w =
     (if \<not> truthy page then Some (Inr allProducts, w)
      else (case shopifyFetch srv (pageRequest cfg (the page)) 5 w of
              (Inl e, w1) \<Rightarrow> Some (Inl e, w1)
            | (Inr res, w1) \<Rightarrow>
                (case body_json res of
                   None \<Rightarrow> Some (Inl JsonError, w1)
                 | Some data \<Rightarrow>
                     fetchAllProducts_from srv cfg (nextUrl res)
                       (allProducts @ products data) w1)))"

definition fetchAllProducts ::
  "server \<Rightarrow> config \<Rightarrow> world \<Rightarrow> ((error + product list) \<times> world) option" where
  "fetchAllProducts srv cfg w = fetchAllProducts_from srv cfg (Some (productsUrl cfg)) [] w"

section \<open>Tags, metafields and the description of the batch scripts\<close>

text \<open>
  \<^verbatim>\<open>tags = product.tags.split(",").map((t) => t.trim().toLowerCase()); tagMatch = tags.find((t) => [...].includes(t));\<close>
  The list of the batch scripts has nine entries, two of them capitalised.
\<close>

definition targetTags :: "string list" where
  "targetTags =
     [''all-jumpers'', ''water-slides'', ''combos-wet-dry'', ''combos wet/dry'', ''interactives'',
      ''obstacle courses'', ''Obstacle Courses'', ''slide combos'', ''Slide Combos'']"

definition productTags :: "string \<Rightarrow> string list" where
  "productTags tgs = map (\<lambda>t. toLowerCase (trim t)) (split_comma tgs)"

definition tagMatch :: "string list \<Rightarrow> string \<Rightarrow> string option" where
  "tagMatch targets tgs = List.find (\<lambda>t. t \<in> set targets) (productTags tgs)"

text \<open>
  \<^verbatim>\<open>getMeta = (nsKey) => metafields.find((m) => m.namespace === "custom" && m.key === nsKey)?.value || "";\<close>
\<close>

definition getMeta :: "metafield list \<Rightarrow> string \<Rightarrow> string" where
  "getMeta mfs nsKey =
     (case List.find (\<lambda>m. namespace m = ''custom'' \<and> meta_key m = nsKey) mfs of
        None \<Rightarrow> []
      | Some m \<Rightarrow> (case meta_value m of None \<Rightarrow> [] | Some v \<Rightarrow> v))"

text \<open>
  The description that the batch scripts write (the template literal is the same text in
  both scripts): the matched tag, the title, and a line for each of the metafields
  \<open>dimensions\<close>, \<open>includes\<close> and \<open>warranty\<close> that is not empty.
\<close>

definition description_html :: "string \<Rightarrow> string \<Rightarrow> string \<Rightarrow> string \<Rightarrow> string \<Rightarrow> string" where
  "description_html matchedTag productTitle dimensions includes warranty =
       [CHR 0x0A] @
       ''        <div class='' @
       [CHR 0x22] @
       ''product-usp'' @
       [CHR 0x22] @
       ''>'' @
       [CHR 0x0A] @
       ''          Take Your Business to the Next Level with Tago'' @
       [CHR 0x27] @
       ''s Jump Inc.<br>'' @
       [CHR 0x0A] @
       ''          With any inflatable '' @
       matchedTag @
       '' from Tago'' @
       [CHR 0x27] @
       ''s Jump Inc., you can rest easy knowing you'' @
       [CHR 0x27] @
       ''re getting a top-of-the-line, commercial-grade inflatable that'' @
       [CHR 0x27] @
       ''s built to last and maximize your investment.<br><br>'' @
       [CHR 0x0A, CHR 0x0A] @
       ''          The '' @
       productTitle @
       '' is no exception. It'' @
       [CHR 0x27] @
       ''s the perfect option for any event where people want to cool off and h'' @
       ''ave some adrenaline-pumping fun. With a spectacular design and vibrant'' @
       '' color scheme, the '' @
       productTitle @
       '' adds a pop of excitement and visual appeal to any party, ensuring you'' @
       ''r customers come back for more.<br><br>'' @
       [CHR 0x0A, CHR 0x0A] @
       ''          The '' @
       productTitle @
       '' from Tago'' @
       [CHR 0x27] @
       ''s Jump Inc. is an ideal choice for any event.<br>'' @
       [CHR 0x0A] @
       ''          '' @
       (if dimensions \<noteq> [] then ''<strong>Dimensions:</strong> '' @
          dimensions @
          ''<br>'' else []) @
       [CHR 0x0A] @
       ''          '' @
       (if includes \<noteq> [] then ''<strong>Includes:</strong> '' @
          includes @
          ''<br>'' else []) @
       [CHR 0x0A] @
       ''          '' @
       (if warranty \<noteq> [] then ''<strong>Warranty:</strong> '' @
          warranty else []) @
       [CHR 0x0A] @
       ''        </div>'' @
       [CHR 0x0A] @
       ''      ''"


section \<open>The batch script with barcodes (api/update-products-barra.js)\<close>

text \<open>
  The script also defines \<open>barcodeExists\<close>, which asks the shop whether a code is in use;
  nothing calls it, so it has no part in a run and is not modelled.
\<close>

text \<open>A JavaScript \<open>Set\<close> of strings, in insertion order: \<open>add\<close> and \<open>has\<close>.\<close>

definition Set_add :: "string \<Rightarrow> string list \<Rightarrow> string list" where
  "Set_add x xs = (if x \<in> set xs then xs else xs @ [x])"


definition addVariantBarcode :: "string list \<Rightarrow> variant \<Rightarrow> string list" where
  "addVariantBarcode acc v =
     (case barcode v of
        None \<Rightarrow> acc
      | Some code \<Rightarrow> if code \<noteq> [] then Set_add code acc else acc)"

definition getExistingBarcodes :: "product list \<Rightarrow> string list" where
  "getExistingBarcodes ps = foldl (\<lambda>acc p. foldl addVariantBarcode acc (variants p)) [] ps"





record batch_state =
  existingBarcodes :: "string list"
  updated :: "string list"
  barcodesGenerated :: nat



text \<open>
  \<open>updateProducts\<close>: the environment, the catalogue, the set of the barcodes at hand, the
  loop, and the outer \<open>catch\<close> that logs whatever error left the \<open>try\<close>. The result is the
  world at the end, or \<open>None\<close> when the pagination never ends.
\<close>

definition configOf :: "env \<Rightarrow> string \<Rightarrow> config" where
  "configOf e defaultVersion =
     \<lparr>SHOP = (case SHOPIFY_SHOP e of None \<Rightarrow> ''undefined'' | Some s \<Rightarrow> s),
      TOKEN = (case SHOPIFY_ADMIN_TOKEN e of None \<Rightarrow> ''undefined'' | Some s \<Rightarrow> s),
      API_VERSION = (case SHOPIFY_API_VERSION e of
                       None \<Rightarrow> defaultVersion
                     | Some s \<Rightarrow> if s = [] then defaultVersion else s)\<rparr>"


section \<open>The batch script without barcodes (the second update script)\<close>

text \<open>
  The same loop without the barcodes: the state is the list \<open>updated\<close>, the payload has
  the id and the description, and the pause after a product is 300 ms.
\<close>

definition processProduct_plain ::
  "server \<Rightarrow> config \<Rightarrow> product \<Rightarrow> string list \<times> world \<Rightarrow> error option \<times> string list \<times> world" where
  "processProduct_plain srv cfg p s =
     (case s of (updatedTitles, w) \<Rightarrow>
      (case tagMatch targetTags (tags p) of
         None \<Rightarrow> (None, updatedTitles, w)
       | Some tag \<Rightarrow>
           if tag = [] then (None, updatedTitles, w)
           else
             (case shopifyFetch srv (metafieldsRequest cfg p) 5 w of
                (Inl e, w1) \<Rightarrow> (Some e, updatedTitles, w1)
              | (Inr res, w1) \<Rightarrow>
                  (case body_json res of
                     None \<Rightarrow> (Some JsonError, updatedTitles, w1)
                   | Some data \<Rightarrow>
                       (let mfs = (case metafields data of None \<Rightarrow> [] | Some ms \<Rightarrow> ms);
                            description = description_html tag (title p) (getMeta mfs ''dimensions'')
                              (getMeta mfs ''includes'') (getMeta mfs ''warranty'');
                            updatePayload =
                              \<lparr>update_id = product_id p, update_body_html = Some description,
                               update_variants = None\<rparr>
                        in (case shopifyFetch srv
                                   (updateRequest cfg (product_id p) updatePayload) 5 w1 of
                              (Inr ok_res, w2) \<Rightarrow>
                                (None, updatedTitles @ [title p], sleep (Some 300) w2)
                            | (Inl err, w2) \<Rightarrow>
                                (None, updatedTitles,
                                 sleep (Some 300) (console (ErrorUpdate (title p) err) w2))))))))"

fun productsLoop_plain ::
  "server \<Rightarrow> config \<Rightarrow> product list \<Rightarrow> string list \<times> world \<Rightarrow> error option \<times> string list \<times> world" where
  "productsLoop_plain srv cfg [] s = (None, s)"
| "productsLoop_plain srv cfg (p # ps) s =
     (case processProduct_plain srv cfg p s of
        (Some e, s') \<Rightarrow> (Some e, s')
      | (None, s') \<Rightarrow> productsLoop_plain srv cfg ps s')"

definition updateProducts_plain :: "env \<Rightarrow> server \<Rightarrow> world \<Rightarrow> world option" where
  "updateProducts_plain e srv w =
     (if \<not> truthy (SHOPIFY_SHOP e) \<or> \<not> truthy (SHOPIFY_ADMIN_TOKEN e)
      then Some (console ErrorMissingEnv w)
      else
        (case fetchAllProducts srv (configOf e ''2025-01'') w of
           None \<Rightarrow> None
         | Some (Inl err, w1) \<Rightarrow> Some (console (ErrorGeneral err) w1)
         | Some (Inr ps, w1) \<Rightarrow>
             (case productsLoop_plain srv (configOf e ''2025-01'') ps ([], w1) of
                (Some err, updatedTitles, w2) \<Rightarrow> Some (console (ErrorGeneral err) w2)
              | (None, updatedTitles, w2) \<Rightarrow> Some w2)))"

section \<open>The webhook function (netlify/functions/product-created.js)\<close>

text \<open>The two descriptions of the webhook function: without and with a matching tag.\<close>

definition generic_description :: string where
  "generic_description =
       [CHR 0x0A] @
       ''      <div class='' @
       [CHR 0x22] @
       ''product-description'' @
       [CHR 0x22] @
       ''>'' @
       [CHR 0x0A] @
       ''        <p>High-quality product from Tago'' @
       [CHR 0x27] @
       ''s Jump Inc. Built with commercial-grade materials for durability and p'' @
       ''erformance.</p>'' @
       [CHR 0x0A] @
       ''        <p>Perfect for events, parties, and commercial use. Trust in o'' @
       ''ur commitment to quality and customer satisfaction.</p>'' @
       [CHR 0x0A] @
       ''      </div>'' @
       [CHR 0x0A] @
       ''    ''"

definition tagged_description :: "string \<Rightarrow> string \<Rightarrow> string" where
  "tagged_description matchedTag productTitle =
       [CHR 0x0A] @
       ''    <div class='' @
       [CHR 0x22] @
       ''product-usp'' @
       [CHR 0x22] @
       ''>'' @
       [CHR 0x0A] @
       ''      Take Your Business to the Next Level with Tago'' @
       [CHR 0x27] @
       ''s Jump Inc.<br>'' @
       [CHR 0x0A] @
       ''      With any inflatable '' @
       matchedTag @
       '' from Tago'' @
       [CHR 0x27] @
       ''s Jump Inc., you can rest easy knowing you'' @
       [CHR 0x27] @
       ''re getting a top-of-the-line, commercial-grade inflatable that'' @
       [CHR 0x27] @
       ''s built to last and maximize your investment.<br><br>'' @
       [CHR 0x0A, CHR 0x0A] @
       ''      The '' @
       productTitle @
       '' is no exception. It'' @
       [CHR 0x27] @
       ''s the perfect option for any event where people want to cool off and h'' @
       ''ave some adrenaline-pumping fun. With a spectacular design and vibrant'' @
       '' color scheme, the '' @
       productTitle @
       '' adds a pop of excitement and visual appeal to any party, ensuring you'' @
       ''r customers come back for more.<br><br>'' @
       [CHR 0x0A, CHR 0x0A] @
       ''      The '' @
       productTitle @
       '' from Tago'' @
       [CHR 0x27] @
       ''s Jump Inc. is an ideal choice for any event.<br>'' @
       [CHR 0x0A] @
       ''    </div>'' @
       [CHR 0x0A] @
       ''  ''"

text \<open>\<open>generateProductDescription\<close>: its list of tags has the seven lower-case entries.\<close>

definition webhookTags :: "string list" where
  "webhookTags =
     [''all-jumpers'', ''water-slides'', ''combos-wet-dry'', ''combos wet/dry'', ''interactives'',
      ''obstacle courses'', ''slide combos'']"

definition generateProductDescription :: "product \<Rightarrow> string" where
  "generateProductDescription p =
     (case tagMatch webhookTags (tags p) of
        None \<Rightarrow> generic_description
      | Some tag \<Rightarrow> if tag = [] then generic_description else tagged_description tag (title p))"

text \<open>
  \<^verbatim>\<open>product.variants.forEach((variant, index) => { if (!variant.barcode) { newBarcode = generateUniqueBarcode(product.id, index); updatedVariants.push(...); barcodesGenerated++; } });\<close>
\<close>

fun newVariantsLoop ::
  "product \<Rightarrow> variant list \<Rightarrow> nat \<Rightarrow> (nat \<times> string) list \<times> nat \<times> world
     \<Rightarrow> (nat \<times> string) list \<times> nat \<times> world" where
  "newVariantsLoop p [] index s = s"
| "newVariantsLoop p (v # vs) index (updatedVariants, generated, w) =
     (if \<not> truthy (barcode v) then
        newVariantsLoop p vs (index + 1)
          (updatedVariants @ [(variant_id v, generateUniqueBarcode (product_id p) index)],
           generated + 1,
           console (InfoCodeGenerated (generateUniqueBarcode (product_id p) index) (variant_id v)) w)
      else newVariantsLoop p vs (index + 1) (updatedVariants, generated, w))"

text \<open>\<^verbatim>\<open>!product.body_html || product.body_html.trim() === ''\<close>\<close>

definition blankDescription :: "product \<Rightarrow> bool" where
  "blankDescription p = (case body_html p of None \<Rightarrow> True | Some h \<Rightarrow> h = [] \<or> trim h = [])"

text \<open>The payload (lines 128 to 140): the keys \<open>body_html\<close> and \<open>variants\<close> are set only when needed.\<close>

definition newProductPayload :: "product \<Rightarrow> (nat \<times> string) list \<Rightarrow> product_update" where
  "newProductPayload p updatedVariants =
     \<lparr>update_id = product_id p,
      update_body_html = (if blankDescription p then Some (generateProductDescription p) else None),
      update_variants = (if length updatedVariants > 0 then Some updatedVariants else None)\<rparr>"

record process_result =
  success :: bool
  changes :: bool
  result_barcodesGenerated :: "nat option"
  descriptionAdded :: "bool option"
  partial :: "bool option"

text \<open>The fallback of the \<open>catch\<close>: one request for each variant, each in its own \<open>try\<close>.\<close>

fun variantUpdatesLoop ::
  "server \<Rightarrow> config \<Rightarrow> (nat \<times> string) list \<Rightarrow> nat \<times> world \<Rightarrow> nat \<times> world" where
  "variantUpdatesLoop srv cfg [] s = s"
| "variantUpdatesLoop srv cfg ((vid, code) # rest) (variantsUpdated, w) =
     (case shopifyFetch_webhook srv (variantRequest cfg vid code) 3 w of
        (Inr r, w1) \<Rightarrow> variantUpdatesLoop srv cfg rest (variantsUpdated + 1, w1)
      | (Inl err, w1) \<Rightarrow>
          variantUpdatesLoop srv cfg rest (variantsUpdated, console (ErrorVariant vid err) w1))"

text \<open>
  The \<open>try\<close> block of \<open>processNewProduct\<close>: the update request and \<open>response.json()\<close>, which
  throws a \<open>TypeError\<close> when \<open>shopifyFetch\<close> gave \<open>undefined\<close>.
\<close>

definition tryUpdate :: "server \<Rightarrow> request \<Rightarrow> world \<Rightarrow> error option \<times> world" where
  "tryUpdate srv req w =
     (case shopifyFetch_webhook srv req 3 w of
        (Inl err, w1) \<Rightarrow> (Some err, w1)
      | (Inr None, w1) \<Rightarrow> (Some TypeError, w1)
      | (Inr (Some res), w1) \<Rightarrow>
          (case body_json res of None \<Rightarrow> (Some JsonError, w1) | Some d \<Rightarrow> (None, w1)))"

definition processNewProduct ::
  "env \<Rightarrow> server \<Rightarrow> product \<Rightarrow> world \<Rightarrow> (error + process_result) \<times> world" where
  "processNewProduct e srv p w =
     (case newVariantsLoop p (variants p) 0 ([], 0, w) of
        (updatedVariants, generated, w1) \<Rightarrow>
          if \<not> truthy (update_body_html (newProductPayload p updatedVariants))
               \<and> length updatedVariants = 0
          then (Inr \<lparr>success = True, changes = False, result_barcodesGenerated = None,
                     descriptionAdded = None, partial = None\<rparr>, w1)
          else
            (case tryUpdate srv
                    (updateRequest (configOf e ''2024-10'') (product_id p)
                       (newProductPayload p updatedVariants)) w1 of
               (None, w2) \<Rightarrow>
                 (Inr \<lparr>success = True, changes = True, result_barcodesGenerated = Some generated,
                       descriptionAdded =
                         Some (truthy (update_body_html (newProductPayload p updatedVariants))),
                       partial = None\<rparr>, w2)
             | (Some err, w2) \<Rightarrow>
                 if length updatedVariants > 0 then
                   (case variantUpdatesLoop srv (configOf e ''2024-10'') updatedVariants
                           (0, console (ErrorUpdating (title p) err) w2) of
                      (variantsUpdated, w3) \<Rightarrow>
                        (Inr \<lparr>success = variantsUpdated > 0, changes = variantsUpdated > 0,
                              result_barcodesGenerated = Some variantsUpdated,
                              descriptionAdded = Some False, partial = Some True\<rparr>, w3))
                 else (Inl err, console (ErrorUpdating (title p) err) w2)))"

text \<open>
  The handler. \<open>hmac key data\<close> stands for the base64 digest of Node's HMAC-SHA256 and
  \<open>JSON_parse\<close> for \<open>JSON.parse\<close> (\<open>None\<close> when it throws); both are parameters. The times
  of the answer are not part of the model.
\<close>

record webhook_event =
  httpMethod :: string
  hmacHeader :: "string option"
  event_body :: string

datatype json_value = JNull | JProduct product

datatype reply_body =
    MethodNotAllowed
  | NotAuthorized
  | InvalidData
  | Processed process_result nat string
  | InternalError error

record reply =
  statusCode :: nat
  reply_body :: reply_body

definition verifyWebhook :: "(string \<Rightarrow> string \<Rightarrow> string) \<Rightarrow> string \<Rightarrow> string \<Rightarrow> string \<Rightarrow> bool" where
  "verifyWebhook hmac secret dat hmac_header = (hmac secret dat = hmac_header)"

definition handler ::
  "(string \<Rightarrow> string \<Rightarrow> string) \<Rightarrow> (string \<Rightarrow> json_value option) \<Rightarrow> env \<Rightarrow> server
     \<Rightarrow> webhook_event \<Rightarrow> world \<Rightarrow> reply \<times> world" where
  "handler hmac JSON_parse e srv ev w =
     (if httpMethod ev \<noteq> ''POST''
      then (\<lparr>statusCode = 405, reply_body = MethodNotAllowed\<rparr>, w)
      else if truthy (SHOPIFY_WEBHOOK_SECRET e) \<and> truthy (hmacHeader ev)
              \<and> \<not> verifyWebhook hmac (the (SHOPIFY_WEBHOOK_SECRET e)) (event_body ev)
                     (the (hmacHeader ev))
      then (\<lparr>statusCode = 401, reply_body = NotAuthorized\<rparr>, console ErrorNotAuthentic w)
      else
        (case JSON_parse (event_body ev) of
           None \<Rightarrow>
             (\<lparr>statusCode = 500, reply_body = InternalError JsonError\<rparr>,
              console (ErrorHandler JsonError) w)
         | Some JNull \<Rightarrow>
             (\<lparr>statusCode = 400, reply_body = InvalidData\<rparr>, console ErrorInvalidData w)
         | Some (JProduct p) \<Rightarrow>
             if product_id p = 0
             then (\<lparr>statusCode = 400, reply_body = InvalidData\<rparr>, console ErrorInvalidData w)
             else
               (case processNewProduct e srv p w of
                  (Inr r, w1) \<Rightarrow>
                    (\<lparr>statusCode = 200, reply_body = Processed r (product_id p) (title p)\<rparr>, w1)
                | (Inl err, w1) \<Rightarrow>
                    (\<lparr>statusCode = 500, reply_body = InternalError err\<rparr>,
                     console (ErrorHandler err) w1))))"

section \<open>Vocabulary of the statements and sample inputs\<close>

text \<open>The outcome of a call of \<open>fetch\<close> is a response with status 429.\<close>

definition is429 :: "fetch_result \<Rightarrow> bool" where
  "is429 r = (case r of Responded res \<Rightarrow> status res = 429 | Rejected msg \<Rightarrow> False)"

definition response_with :: "nat \<Rightarrow> string option \<Rightarrow> response" where
  "response_with st ra =
     \<lparr>status = st, statusText = ''status'', retryAfter = ra, link = None,
      body_text = ''body'', body_json = Some \<lparr>products = [], metafields = None\<rparr>\<rparr>"

definition sample_request :: request where
  "sample_request = \<lparr>url = ''https://shop.example/admin/api/2025-01/products/1.json'',
     meth = PUT, headers = [], body = NoBody\<rparr>"

definition world0 :: world where
  "world0 = \<lparr>served = 0, trace = []\<rparr>"

text \<open>A server that answers the calls of a script with the listed statuses, then with 200.\<close>

definition scripted :: "(nat \<times> string option) list \<Rightarrow> server" where
  "scripted rs n req =
     (if n < length rs then Responded (response_with (fst (rs ! n)) (snd (rs ! n)))
      else Responded (response_with 200 None))"

text \<open>
  Specification side of the pagination: \<open>follows_pages srv cfg w u rs w'\<close> says that,
  from the world \<open>w\<close> and the address \<open>u\<close>, the pages \<open>rs\<close> are the responses that
  \<open>shopifyFetch\<close> obtains one after the other, each at the address named by the next
  link of the one before, that the last page has no next link, and that \<open>w'\<close> is the
  world after the last page.
\<close>

fun follows_pages :: "server \<Rightarrow> config \<Rightarrow> world \<Rightarrow> string \<Rightarrow> response list \<Rightarrow> world \<Rightarrow> bool" where
  "follows_pages srv cfg w u [] w' = False"
| "follows_pages srv cfg w u (r # rs) w' =
     (case shopifyFetch srv (pageRequest cfg u) 5 w of
        (Inl e, w1) \<Rightarrow> False
      | (Inr res, w1) \<Rightarrow>
          res = r \<and> body_json r \<noteq> None \<and>
          (if rs = [] then nextUrl r = None \<and> w' = w1
           else (case nextUrl r of
                   None \<Rightarrow> False
                 | Some u' \<Rightarrow> follows_pages srv cfg w1 u' rs w')))"

definition pageProducts :: "response \<Rightarrow> product list" where
  "pageProducts r = (case body_json r of None \<Rightarrow> [] | Some d \<Rightarrow> products d)"

definition sample_config :: config where
  "sample_config = \<lparr>SHOP = ''shop.example'', TOKEN = ''token'', API_VERSION = ''2025-01''\<rparr>"

definition sample_product :: "nat \<Rightarrow> string \<Rightarrow> string option \<Rightarrow> variant list \<Rightarrow> product" where
  "sample_product pid tgs html vs =
     \<lparr>product_id = pid, title = ''Castle'', tags = tgs, body_html = html, variants = vs\<rparr>"

definition page_response :: "product list \<Rightarrow> string option \<Rightarrow> response" where
  "page_response ps lnk =
     \<lparr>status = 200, statusText = ''OK'', retryAfter = None, link = lnk,
      body_text = ''body'', body_json = Some \<lparr>products = ps, metafields = None\<rparr>\<rparr>"

definition page2_link :: string where
  "page2_link = ''<https://shop.example/page2>; '' @ rel_next"

text \<open>A catalogue of two pages: the first names the second in its link header.\<close>

definition two_pages :: server where
  "two_pages n req =
     (if url req = ''https://shop.example/page2''
      then Responded (page_response [sample_product 102 ''slide combos'' None []] None)
      else Responded (page_response [sample_product 101 ''all-jumpers'' None []] (Some page2_link)))"

text \<open>Sample inputs of the webhook function and of the batch scripts.\<close>

definition sample_env :: env where
  "sample_env =
     \<lparr>SHOPIFY_SHOP = Some ''shop.example'', SHOPIFY_ADMIN_TOKEN = Some ''token'',
      SHOPIFY_API_VERSION = None, SHOPIFY_WEBHOOK_SECRET = Some ''secret''\<rparr>"

definition complete_product :: product where
  "complete_product =
     sample_product 101 ''all-jumpers'' (Some ''<p>Hand-written text</p>'')
       [\<lparr>variant_id = 7, barcode = Some ''4006381333931''\<rparr>]"

definition unsigned_event :: webhook_event where
  "unsigned_event = \<lparr>httpMethod = ''POST'', hmacHeader = None, event_body = ''{}''\<rparr>"

definition signed_event :: webhook_event where
  "signed_event = \<lparr>httpMethod = ''POST'', hmacHeader = Some ''forged'', event_body = ''{}''\<rparr>"

definition sample_hmac :: "string \<Rightarrow> string \<Rightarrow> string" where
  "sample_hmac k d = k @ d"

definition sample_parse :: "string \<Rightarrow> json_value option" where
  "sample_parse s = Some (JProduct complete_product)"




text \<open>The variants that an update payload names.\<close>

definition payloadVariants :: "product_update \<Rightarrow> (nat \<times> string) list" where
  "payloadVariants u = (case update_variants u of None \<Rightarrow> [] | Some vs \<Rightarrow> vs)"






definition slide :: product where
  "slide = sample_product 103 ''slide combos'' None []"




text \<open>
  The sleeps that a trace shows, and the sleeps that the answers to the calls
  \<open>a, a + 1, \<dots>, a + n - 1\<close> of a request ask for: one for each 429 answer, of 1000 times
  the seconds read from its \<open>Retry-After\<close> header.
\<close>

fun sleeps :: "event list \<Rightarrow> int option list" where
  "sleeps [] = []"
| "sleeps (Slept ms # es) = ms # sleeps es"
| "sleeps (Requested r # es) = sleeps es"
| "sleeps (Logged l # es) = sleeps es"

fun backoffs :: "server \<Rightarrow> request \<Rightarrow> nat \<Rightarrow> nat \<Rightarrow> int option list" where
  "backoffs srv req a 0 = []"
| "backoffs srv req a (Suc n) =
     (case srv a req of
        Responded res \<Rightarrow>
          if status res = 429 then [map_option (\<lambda>s. s * 1000) (retryAfterSeconds res)] else []
      | Rejected msg \<Rightarrow> [])
     @ backoffs srv req (Suc a) n"

text \<open>
  What either helper does at the call \<open>n\<close> of a request when the answer is 429: the
  request, the warning with the seconds read from the header, and the sleep of 1000
  times these seconds.
\<close>

definition rateLimited :: "server \<Rightarrow> request \<Rightarrow> nat \<Rightarrow> event list" where
  "rateLimited srv req n =
     (case srv n req of
        Responded res \<Rightarrow>
          [Requested req, Logged (WarnRateLimit (retryAfterSeconds res)),
           Slept (map_option (\<lambda>s. s * 1000) (retryAfterSeconds res))]
      | Rejected msg \<Rightarrow> [])"

text \<open>
  The sleeps that the answers to the calls \<open>a, a + 1, \<dots>\<close> (the attempts
  \<open>i, i + 1, \<dots>\<close>) make the helper of the webhook function take: after a 429 the
  1000 times the seconds of its header, after another failure one second, unless the
  attempt was the last one.
\<close>

fun webhook_waits :: "server \<Rightarrow> request \<Rightarrow> nat \<Rightarrow> nat \<Rightarrow> nat \<Rightarrow> nat \<Rightarrow> int option list" where
  "webhook_waits srv req retries a i 0 = []"
| "webhook_waits srv req retries a i (Suc n) =
     (case srv a req of
        Responded res \<Rightarrow>
          if status res = 429 then [map_option (\<lambda>s. s * 1000) (retryAfterSeconds res)]
          else if ok res \<or> i = retries - 1 then []
          else [Some 1000]
      | Rejected msg \<Rightarrow> if i = retries - 1 then [] else [Some 1000])
     @ webhook_waits srv req retries (Suc a) (Suc i) n"

text \<open>
  The link headers that the shop sends: one entry \<^verbatim>\<open><u>; rel="next"\<close> or
  \<^verbatim>\<open><u>; rel="previous"\<close>, or both as \<^verbatim>\<open><p>; rel="previous", <n>; rel="next"\<close>;
  none on a catalogue of one page.
\<close>

definition link_entry :: "string \<Rightarrow> string \<Rightarrow> string" where
  "link_entry u rel = ''<'' @ u @ ''>; rel='' @ [CHR 0x22] @ rel @ [CHR 0x22]"

definition shopifyLink :: "string option \<Rightarrow> string option \<Rightarrow> string option" where
  "shopifyLink prv nxt =
     (case prv of
        None \<Rightarrow> (case nxt of None \<Rightarrow> None | Some n \<Rightarrow> Some (link_entry n ''next''))
      | Some p \<Rightarrow>
          (case nxt of
             None \<Rightarrow> Some (link_entry p ''previous'')
           | Some n \<Rightarrow> Some (link_entry p ''previous'' @ '', '' @ link_entry n ''next'')))"

text \<open>An address that can stand between \<^verbatim>\<open><\<close> and \<^verbatim>\<open>>\<close>.\<close>

definition cleanUrl :: "string \<Rightarrow> bool" where
  "cleanUrl u = (u \<noteq> [] \<and> CHR ''<'' \<notin> set u \<and> CHR ''>'' \<notin> set u)"

definition cleanUrlOption :: "string option \<Rightarrow> bool" where
  "cleanUrlOption x = (case x of None \<Rightarrow> True | Some u \<Rightarrow> cleanUrl u)"

text \<open>
  Specification side of the pagination, in terms of the headers alone:
  \<open>cursor_pages srv cfg w u pgs w'\<close> says that, from the world \<open>w\<close> and the address \<open>u\<close>,
  \<open>shopifyFetch\<close> obtains the responses of \<open>pgs\<close> one after the other; each response comes
  with the previous and the next address that its link header carries, the next
  address is where the following page is asked for, the last page carries no next
  address, and \<open>w'\<close> is the world after the last page.
\<close>

fun cursor_pages ::
  "server \<Rightarrow> config \<Rightarrow> world \<Rightarrow> string \<Rightarrow> (response \<times> string option \<times> string option) list
     \<Rightarrow> world \<Rightarrow> bool" where
  "cursor_pages srv cfg w u [] w' = False"
| "cursor_pages srv cfg w u ((r, prv, nxt) # pgs) w' =
     (case shopifyFetch srv (pageRequest cfg u) 5 w of
        (Inl e, w1) \<Rightarrow> False
      | (Inr res, w1) \<Rightarrow>
          res = r \<and> body_json r \<noteq> None \<and> link r = shopifyLink prv nxt \<and> cleanUrlOption prv \<and>
          (case nxt of
             None \<Rightarrow> pgs = [] \<and> w' = w1
           | Some u' \<Rightarrow> cleanUrl u' \<and> cursor_pages srv cfg w1 u' pgs w'))"

text \<open>A catalogue of three pages; the second one names the first and the third.\<close>

definition three_pages :: server where
  "three_pages n req =
     (if url req = ''https://shop.example/page2''
      then Responded (page_response [sample_product 102 ''slide combos'' None []]
             (shopifyLink (Some ''https://shop.example/page1'') (Some ''https://shop.example/page3'')))
      else if url req = ''https://shop.example/page3''
      then Responded (page_response [sample_product 103 ''tents'' None []]
             (shopifyLink (Some ''https://shop.example/page2'') None))
      else Responded (page_response [sample_product 101 ''all-jumpers'' None []]
             (shopifyLink None (Some ''https://shop.example/page2''))))"



text \<open>The state in which the loop of the script with barcodes starts.\<close>

definition initialState :: "product list \<Rightarrow> batch_state" where
  "initialState ps =
     \<lparr>existingBarcodes = getExistingBarcodes ps, updated = [], barcodesGenerated = 0\<rparr>"

text \<open>
  More of what a trace shows: the requests, the errors that the outer handler of a
  batch script logged, the update errors logged for single products, and the updates of
  single variants.
\<close>

fun requestsIn :: "event list \<Rightarrow> request list" where
  "requestsIn [] = []"
| "requestsIn (Requested r # es) = r # requestsIn es"
| "requestsIn (Slept ms # es) = requestsIn es"
| "requestsIn (Logged l # es) = requestsIn es"

fun generalErrors :: "event list \<Rightarrow> error list" where
  "generalErrors [] = []"
| "generalErrors (Logged (ErrorGeneral err) # es) = err # generalErrors es"
| "generalErrors (e # es) = generalErrors es"

fun updateErrors :: "event list \<Rightarrow> (string \<times> error) list" where
  "updateErrors [] = []"
| "updateErrors (Logged (ErrorUpdate t err) # es) = (t, err) # updateErrors es"
| "updateErrors (e # es) = updateErrors es"

fun variantUpdatesIn :: "event list \<Rightarrow> (nat \<times> string) list" where
  "variantUpdatesIn [] = []"
| "variantUpdatesIn (Requested r # es) =
     (case body r of VariantUpdate vid code \<Rightarrow> (vid, code) # variantUpdatesIn es
      | NoBody \<Rightarrow> variantUpdatesIn es | ProductUpdate u \<Rightarrow> variantUpdatesIn es)"
| "variantUpdatesIn (Slept ms # es) = variantUpdatesIn es"
| "variantUpdatesIn (Logged l # es) = variantUpdatesIn es"

text \<open>The barcodes that an update payload sends.\<close>

definition sentCodes :: "product_update \<Rightarrow> string list" where
  "sentCodes u = map snd (payloadVariants u)"

text \<open>
  A shop with the one page of products \<open>ps\<close>: it answers the request for the products
  with that page, every other GET request (the metafields) with the status \<open>ms\<close>, and
  every PUT request with the status \<open>us\<close>.
\<close>

definition shop :: "product list \<Rightarrow> nat \<Rightarrow> nat \<Rightarrow> server" where
  "shop ps ms us n req =
     (if meth req = PUT then Responded (response_with us None)
      else if url req = productsUrl (configOf sample_env ''2025-01'')
      then Responded (page_response ps None)
      else Responded (response_with ms None))"

section \<open>Decimal strings\<close>

lemma lt10_cases:
  "(d::nat) < 10 \<Longrightarrow>
     d = 0 \<or> d = 1 \<or> d = 2 \<or> d = 3 \<or> d = 4 \<or> d = 5 \<or> d = 6 \<or> d = 7 \<or> d = 8 \<or> d = 9"
  by arith

lemma digitVal_digitChar: "d < 10 \<Longrightarrow> digitVal (digitChar d) = d"
  by (drule lt10_cases) (elim disjE; simp add: digitVal_def digitChar_def)

lemma isDigit_digitChar: "d < 10 \<Longrightarrow> isDigit (digitChar d)"
  by (drule lt10_cases) (elim disjE; simp add: isDigit_def digitChar_def)

lemma digitChar_0: "digitChar 0 = CHR ''0''"
  by (simp add: digitChar_def)

lemma String_nat_digits: "\<forall>c \<in> set (String_nat n). isDigit c"
proof (induction n rule: String_nat.induct)
  case (1 n)
  show ?case
  proof (cases "n < 10")
    case True
    then show ?thesis by (simp add: String_nat.simps [of n] isDigit_digitChar)
  next
    case False
    with 1 show ?thesis by (simp add: String_nat.simps [of n] isDigit_digitChar)
  qed
qed

lemma String_nat_nonempty: "String_nat n \<noteq> []"
  by (simp add: String_nat.simps [of n])

lemma length_String_nat_small: "n < 10 \<Longrightarrow> length (String_nat n) = 1"
  by (simp add: String_nat.simps [of n])

lemma length_String_nat_step:
  "10 \<le> n \<Longrightarrow> length (String_nat n) = Suc (length (String_nat (n div 10)))"
  by (simp add: String_nat.simps [of n])

lemma length_String_nat_le3: "n < 1000 \<Longrightarrow> length (String_nat n) \<le> 3"
proof -
  assume n: "n < 1000"
  show ?thesis
  proof (cases "n < 10")
    case True
    then show ?thesis by (simp add: length_String_nat_small)
  next
    case False
    then have s1: "length (String_nat n) = Suc (length (String_nat (n div 10)))"
      by (simp add: length_String_nat_step)
    show ?thesis
    proof (cases "n div 10 < 10")
      case True
      with s1 show ?thesis by (simp add: length_String_nat_small)
    next
      case False
      then have s2: "length (String_nat (n div 10)) = Suc (length (String_nat (n div 10 div 10)))"
        by (simp add: length_String_nat_step)
      from n have "n div 10 div 10 < 10" by simp
      with s1 s2 show ?thesis by (simp add: length_String_nat_small)
    qed
  qed
qed

lemma slice_last_snoc:
  "slice_last (Suc k) (t @ [d]) = slice_last k t @ [d]"
  by (simp add: slice_last_def)

lemma padStart_snoc:
  "padStart (Suc k) c (s @ [d]) = padStart k c s @ [d]"
  by (simp add: padStart_def)

lemma last_digits_Suc:
  "slice_last (Suc k) (padStart (Suc k) (CHR ''0'') (String_nat n)) =
   slice_last k (padStart k (CHR ''0'') (String_nat (n div 10))) @ [digitChar (n mod 10)]"
proof (cases "n < 10")
  case True
  then have z: "n div 10 = 0" and m: "n mod 10 = n" by simp_all
  have l: "slice_last (Suc k) (padStart (Suc k) (CHR ''0'') (String_nat n)) =
           replicate k (CHR ''0'') @ [digitChar n]"
    using True by (simp add: String_nat.simps [of n] padStart_def slice_last_def)
  have r: "slice_last k (padStart k (CHR ''0'') (String_nat 0)) = replicate k (CHR ''0'')"
  proof (cases k)
    case 0
    then show ?thesis by (simp add: String_nat.simps [of 0] padStart_def slice_last_def)
  next
    case (Suc j)
    then show ?thesis
      by (simp add: String_nat.simps [of 0] padStart_def slice_last_def digitChar_0
          replicate_append_same)
  qed
  show ?thesis by (simp add: l r z m)
next
  case False
  then have "String_nat n = String_nat (n div 10) @ [digitChar (n mod 10)]"
    by (simp add: String_nat.simps [of n])
  then show ?thesis by (simp add: padStart_snoc slice_last_snoc)
qed

lemma last_digits_mod:
  "slice_last k (padStart k (CHR ''0'') (String_nat n)) =
   slice_last k (padStart k (CHR ''0'') (String_nat (n mod 10 ^ k)))"
proof (induction k arbitrary: n)
  case 0
  show ?case by (simp add: slice_last_def)
next
  case (Suc k)
  have d: "(n mod 10 ^ Suc k) div 10 = (n div 10) mod 10 ^ k"
    by (simp add: mod_mult2_eq)
  have m: "(n mod 10 ^ Suc k) mod 10 = n mod 10"
    by (simp add: mod_mod_cancel)
  have "slice_last (Suc k) (padStart (Suc k) (CHR ''0'') (String_nat (n mod 10 ^ Suc k))) =
        slice_last k (padStart k (CHR ''0'') (String_nat ((n div 10) mod 10 ^ k)))
          @ [digitChar (n mod 10)]"
    by (simp only: last_digits_Suc d m)
  also have "\<dots> = slice_last k (padStart k (CHR ''0'') (String_nat (n div 10)))
          @ [digitChar (n mod 10)]"
    using Suc.IH [of "n div 10"] by simp
  also have "\<dots> = slice_last (Suc k) (padStart (Suc k) (CHR ''0'') (String_nat n))"
    by (simp only: last_digits_Suc)
  finally show ?case by simp
qed

lemma baseCode_mod:
  "p mod 1000000 = q mod 1000000 \<Longrightarrow> baseCode p i = baseCode q i"
proof -
  assume pq: "p mod 1000000 = q mod 1000000"
  then have e: "p mod 10 ^ 6 = q mod 10 ^ 6" by simp
  have "slice_last 6 (padStart 6 (CHR ''0'') (String_nat p)) =
        slice_last 6 (padStart 6 (CHR ''0'') (String_nat (p mod 10 ^ 6)))"
    by (rule last_digits_mod)
  also have "\<dots> = slice_last 6 (padStart 6 (CHR ''0'') (String_nat (q mod 10 ^ 6)))"
    by (simp only: e)
  also have "\<dots> = slice_last 6 (padStart 6 (CHR ''0'') (String_nat q))"
    by (rule last_digits_mod [symmetric])
  finally show ?thesis by (simp add: baseCode_def)
qed

section \<open>Claims about generateUniqueBarcode\<close>

lemma replicate_numeral: "replicate (numeral k) x = x # replicate (pred_numeral k) x"
  by (simp add: numeral_eq_Suc)

text \<open>The equations that evaluate the generator on numerals.\<close>

lemmas barcode_eval =
  generateUniqueBarcode_def baseCode_def String_nat.simps padStart_def slice_last_def
  checksumLoop.simps charAt_def parseInt_char_def isDigit_def digitVal_def digitChar_def
  addNumber_def replicate_numeral

lemma length_last_six: "length (slice_last 6 (padStart 6 c s)) = 6"
  by (simp add: slice_last_def padStart_def)

lemma length_baseCode: "index < 1000 \<Longrightarrow> length (baseCode productId index) = 12"
  using length_String_nat_le3 [of index]
  by (simp add: baseCode_def length_last_six) (simp add: padStart_def)

lemma isDigit_0: "isDigit (CHR ''0'')"
  by (simp add: isDigit_def)

lemma padStart_digits:
  "\<forall>c \<in> set s. isDigit c \<Longrightarrow> \<forall>c \<in> set (padStart n (CHR ''0'') s). isDigit c"
  by (auto simp: padStart_def isDigit_0)

lemma slice_last_digits:
  "\<forall>c \<in> set s. isDigit c \<Longrightarrow> \<forall>c \<in> set (slice_last k s). isDigit c"
  by (auto simp: slice_last_def dest: in_set_dropD)

lemma baseCode_digits: "\<forall>c \<in> set (baseCode productId index). isDigit c"
proof -
  have a: "\<forall>c \<in> set ''200''. isDigit c" by (simp add: isDigit_def)
  have b: "\<forall>c \<in> set (slice_last 6 (padStart 6 (CHR ''0'') (String_nat productId))). isDigit c"
    by (intro slice_last_digits padStart_digits String_nat_digits)
  have c: "\<forall>c \<in> set (padStart 3 (CHR ''0'') (String_nat index)). isDigit c"
    by (intro padStart_digits String_nat_digits)
  from a b c show ?thesis unfolding baseCode_def set_append by blast
qed

lemma checksumLoop_digits:
  "i \<le> 12 \<Longrightarrow> 12 \<le> length code \<Longrightarrow> \<forall>c \<in> set code. isDigit c \<Longrightarrow>
   checksumLoop code i (Some s) =
     Some (s + (\<Sum>j = i..<12. eanWeight j * digitVal (code ! j)))"
proof (induction code i "Some s" arbitrary: s rule: checksumLoop.induct)
  case (1 code i)
  show ?case
  proof (cases "i < 12")
    case False
    with 1(2) have "i = 12" by simp
    then show ?thesis by (simp add: checksumLoop.simps [of code 12])
  next
    case True
    with 1(3) have il: "i < length code" by simp
    with 1(4) have dg: "isDigit (code ! i)" by simp
    have p: "parseInt_char (charAt code i) = Some (digitVal (code ! i))"
      using il dg by (simp add: parseInt_char_def charAt_def)
    let ?t = "eanWeight i * digitVal (code ! i)"
    have step: "checksumLoop code i (Some s) = checksumLoop code (i + 1) (Some (s + ?t))"
      using True
      by (simp add: checksumLoop.simps [of code i] p addNumber_def eanWeight_def mult.commute)
    have ih: "checksumLoop code (i + 1) (Some (s + ?t)) =
        Some (s + ?t + (\<Sum>j = i + 1..<12. eanWeight j * digitVal (code ! j)))"
      using True 1(3,4)
      by (intro 1(1) [OF True refl]) (simp_all add: p addNumber_def eanWeight_def)
    have "(\<Sum>j = i..<12. eanWeight j * digitVal (code ! j)) =
        ?t + (\<Sum>j = i + 1..<12. eanWeight j * digitVal (code ! j))"
      using True by (simp add: sum.atLeast_Suc_lessThan)
    with step ih show ?thesis by simp
  qed
qed

lemma String_nat_check_digit: "String_nat ((10 - s mod 10) mod 10) = [digitChar ((10 - s mod 10) mod 10)]"
  by (simp add: String_nat.simps [of "(10 - s mod 10) mod 10"])

text \<open>
  For an index below 1000 the generator does what its comment says: thirteen decimal
  digits, the last one the EAN-13 check digit of the first twelve.
\<close>

lemma generateUniqueBarcode_ean13:
  assumes "index < 1000"
  shows "length (generateUniqueBarcode productId index) = 13"
    and "\<forall>c \<in> set (generateUniqueBarcode productId index). isDigit c"
    and "digitVal (generateUniqueBarcode productId index ! 12) =
         (10 - (\<Sum>j = 0..<12. eanWeight j * digitVal (generateUniqueBarcode productId index ! j))
            mod 10) mod 10"
proof -
  let ?b = "baseCode productId index"
  let ?s = "\<Sum>j = 0..<12. eanWeight j * digitVal (?b ! j)"
  let ?c = "(10 - ?s mod 10) mod 10"
  have len: "length ?b = 12" using assms by (rule length_baseCode)
  have ck: "checksumLoop ?b 0 (Some 0) = Some (0 + ?s)"
    by (rule checksumLoop_digits) (simp_all add: len baseCode_digits)
  have g: "generateUniqueBarcode productId index = ?b @ [digitChar ?c]"
    by (simp add: generateUniqueBarcode_def Let_def ck String_nat_check_digit)
  show "length (generateUniqueBarcode productId index) = 13"
    by (simp add: g len)
  have "?c < 10" by simp
  then have dc: "isDigit (digitChar ?c)" and dv: "digitVal (digitChar ?c) = ?c"
    by (simp_all only: isDigit_digitChar digitVal_digitChar)
  show "\<forall>c \<in> set (generateUniqueBarcode productId index). isDigit c"
    using baseCode_digits [of productId index] dc by (simp add: g)
  have same: "(\<Sum>j = 0..<12. eanWeight j * digitVal ((?b @ [digitChar ?c]) ! j)) = ?s"
    by (rule sum.cong) (simp_all add: nth_append len)
  have "(?b @ [digitChar ?c]) ! 12 = digitChar ?c"
    using len by (simp add: nth_append)
  then show "digitVal (generateUniqueBarcode productId index ! 12) =
         (10 - (\<Sum>j = 0..<12. eanWeight j * digitVal (generateUniqueBarcode productId index ! j))
            mod 10) mod 10"
    by (simp only: g same dv)
qed

text \<open>
  C1. The claim asks for thirteen digits at every index. At index 1000 (the first
  variant of the eleventh product of a batch run, \<open>10 * 100 + 0 + 0\<close>) the index part
  has four characters, the code has fourteen, and the appended digit is the check digit
  of the first twelve characters only.
\<close>

theorem generateUniqueBarcode_index_1000:
  "generateUniqueBarcode 7654321098765 1000 = ''20009876510002'' \<and>
   length (generateUniqueBarcode 7654321098765 1000) = 14"
  by (simp add: barcode_eval)

text \<open>
  C9. generateUniqueBarcode is a function of the last six decimal digits of the product
  id and of the index: two product ids that agree modulo \<open>10^6\<close> give the same code
  for the same index, and distinct product ids with equal codes exist (1 and 1000001).
\<close>

theorem generateUniqueBarcode_last_six_digits:
  "(\<forall>p q i. p mod 1000000 = q mod 1000000 \<longrightarrow>
       generateUniqueBarcode p i = generateUniqueBarcode q i) \<and>
   (\<exists>p q i. p \<noteq> q \<and> generateUniqueBarcode p i = generateUniqueBarcode q i)"
proof -
  have a: "generateUniqueBarcode p i = generateUniqueBarcode q i"
    if "p mod 1000000 = q mod 1000000" for p q i
    using baseCode_mod [OF that, of i] by (simp only: generateUniqueBarcode_def)
  have "(1::nat) \<noteq> 1000001 \<and> generateUniqueBarcode 1 0 = generateUniqueBarcode 1000001 0"
    using a [of 1 1000001 0] by simp
  then have "\<exists>p q i. p \<noteq> q \<and> generateUniqueBarcode p i = generateUniqueBarcode q i"
    by blast
  with a show ?thesis by blast
qed

theorem generateUniqueBarcode_last_six_digits_witness:
  "(7654321098765::nat) mod 1000000 = 98765 mod 1000000 \<and>
   generateUniqueBarcode 7654321098765 7 = generateUniqueBarcode 98765 7 \<and>
   generateUniqueBarcode 98765 7 = ''2000987650074''"
proof -
  have h: "(7654321098765::nat) mod 1000000 = 98765 mod 1000000" by simp
  have e: "generateUniqueBarcode 98765 7 = ''2000987650074''" by (simp add: barcode_eval)
  from generateUniqueBarcode_last_six_digits h
  have "generateUniqueBarcode 7654321098765 7 = generateUniqueBarcode 98765 7" by blast
  with h e show ?thesis by simp
qed

section \<open>parseInt on decimal strings\<close>

lemma isDigit_cases:
  "isDigit c \<Longrightarrow> \<not> isSpace c \<and> c \<noteq> CHR ''-'' \<and> c \<noteq> CHR ''+''"
  by (auto simp: isDigit_def isSpace_def)

lemma digitsValue_snoc: "digitsValue (s @ [d]) = 10 * digitsValue s + digitVal d"
  by (simp add: digitsValue_def)

lemma digitsValue_String_nat: "digitsValue (String_nat n) = n"
proof (induction n rule: String_nat.induct)
  case (1 n)
  show ?case
  proof (cases "n < 10")
    case True
    then show ?thesis
      by (simp add: String_nat.simps [of n] digitsValue_def digitVal_digitChar)
  next
    case False
    then have "String_nat n = String_nat (n div 10) @ [digitChar (n mod 10)]"
      by (simp add: String_nat.simps [of n])
    with 1 False show ?thesis
      by (simp add: digitsValue_snoc digitVal_digitChar)
  qed
qed

lemma digitsValue_zeros: "digitsValue (replicate k (CHR ''0'') @ s) = digitsValue s"
proof -
  have "foldl (\<lambda>a c. 10 * a + digitVal c) 0 (replicate k (CHR ''0'')) = 0"
    by (induction k) (simp_all add: digitVal_def)
  then show ?thesis by (simp add: digitsValue_def)
qed

lemma parseInt10_String_nat: "parseInt10 (String_nat n) = Some (int n)"
proof -
  obtain c cs where s: "String_nat n = c # cs"
    using String_nat_nonempty [of n] by (cases "String_nat n") auto
  have all: "\<forall>x \<in> set (c # cs). isDigit x"
    using String_nat_digits [of n] by (simp only: s)
  then have c: "\<not> isSpace c" "c \<noteq> CHR ''-''" "c \<noteq> CHR ''+''"
    using isDigit_cases [of c] by simp_all
  have tw: "takeWhile isDigit (c # cs) = c # cs"
    using all by (simp only: takeWhile_eq_all_conv) 
  have "parseInt10 (c # cs) = Some (int (digitsValue (c # cs)))"
    unfolding parseInt10_def using c tw by (simp add: Let_def)
  then show ?thesis
    using digitsValue_String_nat [of n] by (simp only: s [symmetric])
qed

section \<open>shopifyFetch: one attempt\<close>

text \<open>The world after an attempt that met a 429 response.\<close>

lemma fetch_served: "served (snd (fetch srv req w)) = served w + 1"
  by (simp add: fetch_def)

lemma fetch_result: "fst (fetch srv req w) = srv (served w) req"
  by (simp add: fetch_def)

lemma shopifyFetch_from_429:
  assumes "i < retries" "srv (served w) req = Responded res" "status res = 429"
  shows "shopifyFetch_from srv req retries i w =
         shopifyFetch_from srv req retries (i + 1)
           (sleep (map_option (\<lambda>s. s * 1000) (retryAfterSeconds res))
              (console (WarnRateLimit (retryAfterSeconds res)) (snd (fetch srv req w))))"
  using assms by (simp add: shopifyFetch_from.simps [of srv req retries i w] fetch_def)

lemma shopifyFetch_from_final:
  assumes "i < retries" "srv (served w) req = Responded res" "status res \<noteq> 429"
  shows "shopifyFetch_from srv req retries i w =
         (if ok res then Inr res else Inl (HttpError (status res) (statusText res)),
          snd (fetch srv req w))"
  using assms by (simp add: shopifyFetch_from.simps [of srv req retries i w] fetch_def)

lemma shopifyFetch_from_rejected:
  assumes "i < retries" "srv (served w) req = Rejected msg"
  shows "shopifyFetch_from srv req retries i w = (Inl (FetchFailed msg), snd (fetch srv req w))"
  using assms by (simp add: shopifyFetch_from.simps [of srv req retries i w] fetch_def)

lemma shopifyFetch_from_exhausted:
  "\<not> i < retries \<Longrightarrow>
   shopifyFetch_from srv req retries i w = (Inl (RetriesExhausted retries (url req)), w)"
  by (simp add: shopifyFetch_from.simps [of srv req retries i w])

lemma shopifyFetch_webhook_from_429:
  assumes "i < retries" "srv (served w) req = Responded res" "status res = 429"
  shows "shopifyFetch_webhook_from srv req retries i w =
         shopifyFetch_webhook_from srv req retries (i + 1)
           (sleep (map_option (\<lambda>s. s * 1000) (retryAfterSeconds res))
              (console (WarnRateLimit (retryAfterSeconds res)) (snd (fetch srv req w))))"
  using assms by (simp add: shopifyFetch_webhook_from.simps [of srv req retries i w] fetch_def)

lemma shopifyFetch_webhook_from_error:
  assumes "i < retries" "srv (served w) req = Responded res" "status res \<noteq> 429" "\<not> ok res"
  shows "shopifyFetch_webhook_from srv req retries i w =
         (if i = retries - 1
          then (Inl (HttpErrorText (status res) (body_text res)),
                console (ErrorRequest (i + 1) retries (HttpErrorText (status res) (body_text res)))
                  (snd (fetch srv req w)))
          else shopifyFetch_webhook_from srv req retries (i + 1)
                 (sleep (Some 1000)
                    (console (ErrorRequest (i + 1) retries
                               (HttpErrorText (status res) (body_text res)))
                       (snd (fetch srv req w)))))"
  using assms
  by (simp add: shopifyFetch_webhook_from.simps [of srv req retries i w] fetch_def Let_def)

lemma shopifyFetch_webhook_from_ok:
  assumes "i < retries" "srv (served w) req = Responded res" "status res \<noteq> 429" "ok res"
  shows "shopifyFetch_webhook_from srv req retries i w = (Inr (Some res), snd (fetch srv req w))"
  using assms
  by (simp add: shopifyFetch_webhook_from.simps [of srv req retries i w] fetch_def)

lemma shopifyFetch_webhook_from_exhausted:
  "\<not> i < retries \<Longrightarrow> shopifyFetch_webhook_from srv req retries i w = (Inr None, w)"
  by (simp add: shopifyFetch_webhook_from.simps [of srv req retries i w])

lemma served_sleep: "served (sleep ms w) = served w"
  by (simp add: sleep_def)

lemma served_console: "served (console l w) = served w"
  by (simp add: console_def)

text \<open>A run of \<open>k\<close> attempts that all meet 429 leaves the loop at attempt \<open>i + k\<close>.\<close>

lemma shopifyFetch_from_429s:
  "i + k \<le> retries \<Longrightarrow> \<forall>j<k. is429 (srv (served w + j) req) \<Longrightarrow>
   \<exists>w'. served w' = served w + k \<and>
        shopifyFetch_from srv req retries i w = shopifyFetch_from srv req retries (i + k) w'"
proof (induction k arbitrary: i w)
  case 0
  show ?case by (rule exI [of _ w]) simp
next
  case (Suc k)
  from Suc.prems(2) have "is429 (srv (served w) req)" by (metis add.right_neutral zero_less_Suc)
  then obtain res where res: "srv (served w) req = Responded res" "status res = 429"
    by (auto simp: is429_def split: fetch_result.splits)
  let ?w1 = "sleep (map_option (\<lambda>s. s * 1000) (retryAfterSeconds res))
              (console (WarnRateLimit (retryAfterSeconds res)) (snd (fetch srv req w)))"
  have s1: "served ?w1 = served w + 1"
    by (simp add: served_sleep served_console fetch_served)
  from Suc.prems(1) have i: "i < retries" by simp
  have step: "shopifyFetch_from srv req retries i w = shopifyFetch_from srv req retries (i + 1) ?w1"
    using i res by (rule shopifyFetch_from_429)
  have rest: "\<forall>j<k. is429 (srv (served ?w1 + j) req)"
  proof (intro allI impI)
    fix j assume "j < k"
    then have "Suc j < Suc k" by simp
    with Suc.prems(2) have "is429 (srv (served w + Suc j) req)" by blast
    then show "is429 (srv (served ?w1 + j) req)" by (simp add: s1)
  qed
  from Suc.prems(1) have "(i + 1) + k \<le> retries" by simp
  from Suc.IH [OF this rest] obtain w' where
    w': "served w' = served ?w1 + k"
        "shopifyFetch_from srv req retries (i + 1) ?w1 = shopifyFetch_from srv req retries (i + 1 + k) w'"
    by blast
  show ?case
  proof (rule exI [of _ w'], intro conjI)
    show "served w' = served w + Suc k" using w'(1) s1 by simp
    show "shopifyFetch_from srv req retries i w = shopifyFetch_from srv req retries (i + Suc k) w'"
      using step w'(2) by simp
  qed
qed

text \<open>
  A property of the world that \<open>fetch\<close>, the rate-limit warning and \<open>sleep\<close> keep is kept
  by the helper of the batch scripts.
\<close>

lemma shopifyFetch_from_keeps:
  assumes f: "\<And>w. P w \<Longrightarrow> P (snd (fetch srv req w))"
    and c: "\<And>w x. P w \<Longrightarrow> P (console (WarnRateLimit x) w)"
    and s: "\<And>w ms. P w \<Longrightarrow> P (sleep ms w)"
  shows "P w \<Longrightarrow> P (snd (shopifyFetch_from srv req retries i w))"
proof (induction "retries - i" arbitrary: i w)
  case 0
  then have "\<not> i < retries" by simp
  with 0(2) show ?case by (simp add: shopifyFetch_from_exhausted)
next
  case (Suc n)
  then have i: "i < retries" by simp
  show ?case
  proof (cases "srv (served w) req")
    case (Rejected msg)
    with i Suc.prems f show ?thesis by (simp add: shopifyFetch_from_rejected)
  next
    case (Responded res)
    show ?thesis
    proof (cases "status res = 429")
      case True
      let ?w1 = "sleep (map_option (\<lambda>s. s * 1000) (retryAfterSeconds res))
              (console (WarnRateLimit (retryAfterSeconds res)) (snd (fetch srv req w)))"
      have "P ?w1" using Suc.prems f c s by blast
      moreover from Suc(2) have "n = retries - (i + 1)" by simp
      ultimately have "P (snd (shopifyFetch_from srv req retries (i + 1) ?w1))"
        by (rule Suc(1) [rotated])
      then show ?thesis
        using shopifyFetch_from_429 [of i retries srv w req res] i Responded True by simp
    next
      case False
      with i Responded Suc.prems f show ?thesis by (simp add: shopifyFetch_from_final)
    qed
  qed
qed


lemma trace_fetch: "trace (snd (fetch srv req w)) = trace w @ [Requested req]"
  by (simp add: fetch_def)

lemma trace_console: "trace (console l w) = trace w @ [Logged l]"
  by (simp add: console_def)

lemma trace_sleep: "trace (sleep ms w) = trace w @ [Slept ms]"
  by (simp add: sleep_def)

section \<open>parseInt on header values\<close>

lemma dropWhile_spaces:
  "\<forall>c \<in> set ws. isSpace c \<Longrightarrow> dropWhile isSpace (ws @ t) = dropWhile isSpace t"
  by (simp add: dropWhile_append2)

lemma isDigit_zero: "isDigit (CHR ''0'')"
  by (simp add: isDigit_def)

lemma takeWhile_digits:
  assumes "rest = [] \<or> \<not> isDigit (hd rest)"
  shows "takeWhile isDigit (replicate z (CHR ''0'') @ String_nat n @ rest)
           = replicate z (CHR ''0'') @ String_nat n"
proof -
  have r: "takeWhile isDigit rest = []"
    using assms by (cases rest) auto
  have "takeWhile isDigit (String_nat n @ rest) = String_nat n"
    using String_nat_digits [of n] by (simp add: takeWhile_append2 r)
  moreover have "takeWhile isDigit (replicate z (CHR ''0'') @ t) = replicate z (CHR ''0'') @ takeWhile isDigit t"
    for t
    by (induction z) (simp_all add: isDigit_zero)
  ultimately show ?thesis by simp
qed

lemma parseInt10_unsigned:
  assumes "t \<noteq> []" "\<not> isSpace (hd t)" "hd t \<noteq> CHR ''-''" "hd t \<noteq> CHR ''+''"
  shows "parseInt10 t =
     (if takeWhile isDigit t = [] then None else Some (int (digitsValue (takeWhile isDigit t))))"
proof -
  from assms obtain c cs where t: "t = c # cs" by (cases t) auto
  with assms show ?thesis by (simp add: parseInt10_def Let_def)
qed

lemma parseInt10_signed:
  "parseInt10 (CHR ''-'' # t) =
     (if takeWhile isDigit t = [] then None else Some (- int (digitsValue (takeWhile isDigit t))))"
  "parseInt10 (CHR ''+'' # t) =
     (if takeWhile isDigit t = [] then None else Some (int (digitsValue (takeWhile isDigit t))))"
  by (simp_all add: parseInt10_def Let_def isSpace_def)

lemma parseInt10_spaces:
  "\<forall>c \<in> set ws. isSpace c \<Longrightarrow> parseInt10 (ws @ t) = parseInt10 t"
  by (simp add: parseInt10_def dropWhile_spaces)

lemma digits_head:
  "hd (replicate z (CHR ''0'') @ String_nat n @ rest) \<in> set (replicate z (CHR ''0'') @ String_nat n)"
proof (cases z)
  case 0
  obtain c cs where "String_nat n = c # cs"
    using String_nat_nonempty [of n] by (cases "String_nat n") auto
  with 0 show ?thesis by simp
next
  case (Suc k)
  then show ?thesis by simp
qed

lemma parseInt10_decimal:
  assumes ws: "\<forall>c \<in> set ws. isSpace c" and sg: "sg = [] \<or> sg = ''+'' \<or> sg = ''-''"
    and rest: "rest = [] \<or> \<not> isDigit (hd rest)"
  shows "parseInt10 (ws @ sg @ replicate z (CHR ''0'') @ String_nat n @ rest) =
     Some (if sg = ''-'' then - int n else int n)"
proof -
  let ?ds = "replicate z (CHR ''0'') @ String_nat n"
  let ?t = "replicate z (CHR ''0'') @ String_nat n @ rest"
  have tw: "takeWhile isDigit ?t = ?ds" using rest by (rule takeWhile_digits)
  have ne: "?ds \<noteq> []" using String_nat_nonempty [of n] by simp
  have v: "digitsValue ?ds = n" by (simp add: digitsValue_zeros digitsValue_String_nat)
  have "isDigit (hd ?t)"
    using digits_head [of z n rest] String_nat_digits [of n] by (auto simp: isDigit_zero)
  then have h: "\<not> isSpace (hd ?t)" "hd ?t \<noteq> CHR ''-''" "hd ?t \<noteq> CHR ''+''"
    using isDigit_cases by blast+
  have t: "?t \<noteq> []" using String_nat_nonempty [of n] by simp
  from sg consider "sg = []" | "sg = ''+''" | "sg = ''-''" by blast
  then have "parseInt10 (sg @ ?t) = Some (if sg = ''-'' then - int n else int n)"
  proof cases
    case 1
    then show ?thesis
      using parseInt10_unsigned [OF t h] ne by (simp add: tw v)
  next
    case 2
    then show ?thesis using ne by (simp add: parseInt10_signed tw v)
  next
    case 3
    then show ?thesis using ne by (simp add: parseInt10_signed tw v)
  qed
  then show ?thesis using parseInt10_spaces [OF ws, of "sg @ ?t"] by simp
qed

lemma parseInt10_NaN_signed:
  assumes ws: "\<forall>c \<in> set ws. isSpace c" and sg: "sg = ''+'' \<or> sg = ''-''"
    and rest: "rest = [] \<or> \<not> isDigit (hd rest)"
  shows "parseInt10 (ws @ sg @ rest) = None"
proof -
  have r: "takeWhile isDigit rest = []"
    using rest by (cases rest) auto
  from sg have "parseInt10 (sg @ rest) = None"
    by (auto simp: parseInt10_signed r)
  then show ?thesis using parseInt10_spaces [OF ws, of "sg @ rest"] by simp
qed

lemma parseInt10_NaN_unsigned:
  assumes ws: "\<forall>c \<in> set ws. isSpace c"
    and rest: "rest = [] \<or> (\<not> isDigit (hd rest) \<and> \<not> isSpace (hd rest) \<and> hd rest \<noteq> CHR ''+''
                 \<and> hd rest \<noteq> CHR ''-'')"
  shows "parseInt10 (ws @ rest) = None"
proof (cases rest)
  case Nil
  have d: "dropWhile isSpace ws = []" using ws by simp
  show ?thesis unfolding Nil by (simp add: parseInt10_def Let_def d)
next
  case (Cons c cs)
  with rest have h: "rest \<noteq> []" "\<not> isSpace (hd rest)" "hd rest \<noteq> CHR ''-''" "hd rest \<noteq> CHR ''+''"
    and d: "\<not> isDigit (hd rest)"
    by auto
  from d Cons have r: "takeWhile isDigit rest = []" by simp
  from parseInt10_unsigned [OF h] r have "parseInt10 rest = None" by simp
  then show ?thesis using parseInt10_spaces [OF ws, of rest] by simp
qed

section \<open>shopifyFetch: runs of attempts\<close>

lemma rateLimited_429:
  "srv n req = Responded res \<Longrightarrow>
   rateLimited srv req n =
     [Requested req, Logged (WarnRateLimit (retryAfterSeconds res)),
      Slept (map_option (\<lambda>s. s * 1000) (retryAfterSeconds res))]"
  by (simp add: rateLimited_def)

lemma after_429:
  "sleep ms (console l (snd (fetch srv req w))) =
     w\<lparr>served := served w + 1, trace := trace w @ [Requested req, Logged l, Slept ms]\<rparr>"
  by (simp add: sleep_def console_def fetch_def)

lemma rest_429s:
  assumes "\<forall>j<Suc k. is429 (srv (a + j) req)"
  shows "\<forall>j<k. is429 (srv (Suc a + j) req)"
proof (intro allI impI)
  fix j assume "j < k"
  then have "Suc j < Suc k" by simp
  with assms have "is429 (srv (a + Suc j) req)" by blast
  then show "is429 (srv (Suc a + j) req)" by simp
qed

lemma first_429:
  assumes "\<forall>j<Suc k. is429 (srv (a + j) req)"
  obtains res where "srv a req = Responded res" "status res = 429"
proof -
  from assms have "is429 (srv (a + 0) req)" by blast
  then show ?thesis
    by (auto simp: is429_def split: fetch_result.splits intro: that)
qed

lemma shopifyFetch_from_429s_then:
  "i + k < retries \<Longrightarrow> \<forall>j<k. is429 (srv (served w + j) req) \<Longrightarrow>
   srv (served w + k) req = Responded res \<Longrightarrow> status res \<noteq> 429 \<Longrightarrow>
   shopifyFetch_from srv req retries i w =
     (if ok res then Inr res else Inl (HttpError (status res) (statusText res)),
      w\<lparr>served := served w + k + 1,
        trace := trace w @ concat (map (rateLimited srv req) [served w..<served w + k])
                   @ [Requested req]\<rparr>)"
proof (induction k arbitrary: i w)
  case 0
  then show ?case
    by (simp add: shopifyFetch_from_final fetch_def)
next
  case (Suc k)
  from Suc.prems(2) obtain r1 where r1: "srv (served w) req = Responded r1" "status r1 = 429"
    by (rule first_429)
  let ?w1 = "w\<lparr>served := served w + 1,
      trace := trace w @ [Requested req, Logged (WarnRateLimit (retryAfterSeconds r1)),
        Slept (map_option (\<lambda>s. s * 1000) (retryAfterSeconds r1))]\<rparr>"
  from Suc.prems(1) have i: "i < retries" by simp
  have step: "shopifyFetch_from srv req retries i w = shopifyFetch_from srv req retries (i + 1) ?w1"
    using shopifyFetch_from_429 [of i retries srv w req r1] i r1 by (simp add: after_429)
  have a: "(i + 1) + k < retries" using Suc.prems(1) by simp
  have b: "\<forall>j<k. is429 (srv (served ?w1 + j) req)"
    using rest_429s [of k srv "served w" req] Suc.prems(2) by simp
  have c: "srv (served ?w1 + k) req = Responded res" using Suc.prems(3) by simp
  have u: "[served w..<served w + Suc k] = served w # [Suc (served w)..<Suc (served w) + k]"
    by (simp add: upt_conv_Cons)
  show ?case
    unfolding step Suc.IH [OF a b c Suc.prems(4)] u
    using r1(1) by (simp add: rateLimited_429 [of srv "served w" req r1])
qed

lemma shopifyFetch_webhook_from_429s_then:
  "i + k < retries \<Longrightarrow> \<forall>j<k. is429 (srv (served w + j) req) \<Longrightarrow>
   srv (served w + k) req = Responded res \<Longrightarrow> ok res \<Longrightarrow>
   shopifyFetch_webhook_from srv req retries i w =
     (Inr (Some res),
      w\<lparr>served := served w + k + 1,
        trace := trace w @ concat (map (rateLimited srv req) [served w..<served w + k])
                   @ [Requested req]\<rparr>)"
proof (induction k arbitrary: i w)
  case 0
  from 0(4) have "status res \<noteq> 429" by (auto simp: ok_def)
  with 0 show ?case
    by (simp add: shopifyFetch_webhook_from_ok fetch_def)
next
  case (Suc k)
  from Suc.prems(2) obtain r1 where r1: "srv (served w) req = Responded r1" "status r1 = 429"
    by (rule first_429)
  let ?w1 = "w\<lparr>served := served w + 1,
      trace := trace w @ [Requested req, Logged (WarnRateLimit (retryAfterSeconds r1)),
        Slept (map_option (\<lambda>s. s * 1000) (retryAfterSeconds r1))]\<rparr>"
  from Suc.prems(1) have i: "i < retries" by simp
  have step: "shopifyFetch_webhook_from srv req retries i w =
      shopifyFetch_webhook_from srv req retries (i + 1) ?w1"
    using shopifyFetch_webhook_from_429 [of i retries srv w req r1] i r1 by (simp add: after_429)
  have a: "(i + 1) + k < retries" using Suc.prems(1) by simp
  have b: "\<forall>j<k. is429 (srv (served ?w1 + j) req)"
    using rest_429s [of k srv "served w" req] Suc.prems(2) by simp
  have c: "srv (served ?w1 + k) req = Responded res" using Suc.prems(3) by simp
  have u: "[served w..<served w + Suc k] = served w # [Suc (served w)..<Suc (served w) + k]"
    by (simp add: upt_conv_Cons)
  show ?case
    unfolding step Suc.IH [OF a b c Suc.prems(4)] u
    using r1(1) by (simp add: rateLimited_429 [of srv "served w" req r1])
qed

lemma shopifyFetch_webhook_from_rejected:
  assumes "i < retries" "srv (served w) req = Rejected msg"
  shows "shopifyFetch_webhook_from srv req retries i w =
         (if i = retries - 1
          then (Inl (FetchFailed msg),
                console (ErrorRequest (i + 1) retries (FetchFailed msg)) (snd (fetch srv req w)))
          else shopifyFetch_webhook_from srv req retries (i + 1)
                 (sleep (Some 1000)
                    (console (ErrorRequest (i + 1) retries (FetchFailed msg))
                       (snd (fetch srv req w)))))"
  using assms
  by (simp add: shopifyFetch_webhook_from.simps [of srv req retries i w] fetch_def Let_def)

lemma sleeps_append: "sleeps (a @ b) = sleeps a @ sleeps b"
  by (induction a rule: sleeps.induct) simp_all

text \<open>The helper of the webhook function never takes a call back.\<close>

lemma shopifyFetch_webhook_from_served_mono:
  "served w \<le> served (snd (shopifyFetch_webhook_from srv req retries i w))"
proof (induction "retries - i" arbitrary: i w)
  case 0
  then have "\<not> i < retries" by simp
  then show ?case by (simp add: shopifyFetch_webhook_from_exhausted)
next
  case (Suc n)
  then have i: "i < retries" by simp
  from Suc(2) have n: "n = retries - (i + 1)" by simp
  have ih: "served x \<le> served (snd (shopifyFetch_webhook_from srv req retries (i + 1) x))" for x
    using Suc(1) [OF n] .
  have f: "served w \<le> served (snd (fetch srv req w))" by (simp add: fetch_served)
  show ?case
  proof (cases "srv (served w) req")
    case (Rejected msg)
    let ?x = "sleep (Some 1000)
                (console (ErrorRequest (i + 1) retries (FetchFailed msg)) (snd (fetch srv req w)))"
    have "served w \<le> served ?x" by (simp add: served_sleep served_console fetch_served)
    then have "served w \<le> served (snd (shopifyFetch_webhook_from srv req retries (i + 1) ?x))"
        using ih [of ?x] by (rule order_trans)
    then show ?thesis
      using i Rejected
      by (simp add: shopifyFetch_webhook_from_rejected served_console fetch_served)
  next
    case (Responded res)
    show ?thesis
    proof (cases "status res = 429")
      case True
      let ?x = "sleep (map_option (\<lambda>s. s * 1000) (retryAfterSeconds res))
              (console (WarnRateLimit (retryAfterSeconds res)) (snd (fetch srv req w)))"
      have "served w \<le> served ?x" by (simp add: served_sleep served_console fetch_served)
      then have "served w \<le> served (snd (shopifyFetch_webhook_from srv req retries (i + 1) ?x))"
        using ih [of ?x] by (rule order_trans)
      then show ?thesis
        using shopifyFetch_webhook_from_429 [of i retries srv w req res] i Responded True by simp
    next
      case False
      show ?thesis
      proof (cases "ok res")
        case True
        with i Responded False show ?thesis
          by (simp add: shopifyFetch_webhook_from_ok fetch_served)
      next
        case nok: False
        let ?x = "sleep (Some 1000)
                (console (ErrorRequest (i + 1) retries (HttpErrorText (status res) (body_text res)))
                   (snd (fetch srv req w)))"
        have "served w \<le> served ?x" by (simp add: served_sleep served_console fetch_served)
        then have "served w \<le> served (snd (shopifyFetch_webhook_from srv req retries (i + 1) ?x))"
        using ih [of ?x] by (rule order_trans)
        then show ?thesis
          using shopifyFetch_webhook_from_error [of i retries srv w req res] i Responded False nok
          by (simp add: served_console fetch_served)
      qed
    qed
  qed
qed

lemma webhook_sleeps_step:
  assumes ih: "sleeps (trace w') = sleeps (trace x) @
        webhook_waits srv req retries (served x) (i + 1) (served w' - served x)"
    and s: "served x = Suc (served w)" and mono: "served x \<le> served w'"
    and t: "sleeps (trace x) = sleeps (trace w) @ b"
    and h: "\<And>m. webhook_waits srv req retries (served w) i (Suc m) =
                b @ webhook_waits srv req retries (Suc (served w)) (Suc i) m"
  shows "sleeps (trace w') = sleeps (trace w) @
        webhook_waits srv req retries (served w) i (served w' - served w)"
proof -
  from mono s have d: "served w' - served w = Suc (served w' - served x)" by simp
  show ?thesis
    unfolding d h ih t s by simp
qed

text \<open>In a whole run of the helper of the webhook function the sleeps are the waits.\<close>

lemma shopifyFetch_webhook_from_sleeps:
  "sleeps (trace (snd (shopifyFetch_webhook_from srv req retries i w))) =
     sleeps (trace w) @
     webhook_waits srv req retries (served w) i
       (served (snd (shopifyFetch_webhook_from srv req retries i w)) - served w)"
proof (induction "retries - i" arbitrary: i w)
  case 0
  then have "\<not> i < retries" by simp
  then show ?case by (simp add: shopifyFetch_webhook_from_exhausted)
next
  case (Suc n)
  then have i: "i < retries" by simp
  from Suc(2) have n: "n = retries - (i + 1)" by simp
  note ih = Suc(1) [OF n]
  note mono = shopifyFetch_webhook_from_served_mono
  show ?case
  proof (cases "srv (served w) req")
    case (Rejected msg)
    let ?x = "sleep (Some 1000)
                (console (ErrorRequest (i + 1) retries (FetchFailed msg)) (snd (fetch srv req w)))"
    show ?thesis
    proof (cases "i = retries - 1")
      case True
      with i Rejected show ?thesis
        by (simp add: shopifyFetch_webhook_from_rejected served_console fetch_served
            trace_console trace_fetch sleeps_append)
    next
      case False
      have r: "shopifyFetch_webhook_from srv req retries i w =
          shopifyFetch_webhook_from srv req retries (i + 1) ?x"
        using i Rejected False by (simp add: shopifyFetch_webhook_from_rejected)
      show ?thesis
        unfolding r
      proof (rule webhook_sleeps_step [OF ih [of ?x] _ mono, where b = "[Some 1000]"])
        show "served ?x = Suc (served w)"
          by (simp add: served_sleep served_console fetch_served)
        show "sleeps (trace ?x) = sleeps (trace w) @ [Some 1000]"
          by (simp add: trace_sleep trace_console trace_fetch sleeps_append)
        show "webhook_waits srv req retries (served w) i (Suc m) =
                [Some 1000] @ webhook_waits srv req retries (Suc (served w)) (Suc i) m" for m
          using Rejected False by simp
      qed
    qed
  next
    case (Responded res)
    show ?thesis
    proof (cases "status res = 429")
      case True
      let ?b = "map_option (\<lambda>s. s * 1000) (retryAfterSeconds res)"
      let ?x = "sleep ?b (console (WarnRateLimit (retryAfterSeconds res)) (snd (fetch srv req w)))"
      have r: "shopifyFetch_webhook_from srv req retries i w =
          shopifyFetch_webhook_from srv req retries (i + 1) ?x"
        using shopifyFetch_webhook_from_429 [of i retries srv w req res] i Responded True by simp
      show ?thesis
        unfolding r
      proof (rule webhook_sleeps_step [OF ih [of ?x] _ mono, where b = "[?b]"])
        show "served ?x = Suc (served w)"
          by (simp add: served_sleep served_console fetch_served)
        show "sleeps (trace ?x) = sleeps (trace w) @ [?b]"
          by (simp add: trace_sleep trace_console trace_fetch sleeps_append)
        show "webhook_waits srv req retries (served w) i (Suc m) =
                [?b] @ webhook_waits srv req retries (Suc (served w)) (Suc i) m" for m
          using Responded True by simp
      qed
    next
      case False
      show ?thesis
      proof (cases "ok res \<or> i = retries - 1")
        case True
        then show ?thesis
        proof (cases "ok res")
          case True
          with i Responded False show ?thesis
            by (simp add: shopifyFetch_webhook_from_ok fetch_served trace_fetch sleeps_append)
        next
          case nok: False
          with True have "i = retries - 1" by simp
          with i Responded False nok show ?thesis
            using shopifyFetch_webhook_from_error [of i retries srv w req res]
            by (simp add: served_console fetch_served trace_console trace_fetch sleeps_append)
        qed
      next
        case go: False
        let ?x = "sleep (Some 1000)
                (console (ErrorRequest (i + 1) retries (HttpErrorText (status res) (body_text res)))
                   (snd (fetch srv req w)))"
        have r: "shopifyFetch_webhook_from srv req retries i w =
            shopifyFetch_webhook_from srv req retries (i + 1) ?x"
          using shopifyFetch_webhook_from_error [of i retries srv w req res] i Responded False go
          by simp
        show ?thesis
          unfolding r
        proof (rule webhook_sleeps_step [OF ih [of ?x] _ mono, where b = "[Some 1000]"])
          show "served ?x = Suc (served w)"
            by (simp add: served_sleep served_console fetch_served)
          show "sleeps (trace ?x) = sleeps (trace w) @ [Some 1000]"
            by (simp add: trace_sleep trace_console trace_fetch sleeps_append)
          show "webhook_waits srv req retries (served w) i (Suc m) =
                  [Some 1000] @ webhook_waits srv req retries (Suc (served w)) (Suc i) m" for m
            using Responded False go by simp
        qed
      qed
    qed
  qed
qed

section \<open>Claims about shopifyFetch\<close>

lemmas fetch_eval =
  shopifyFetch_def shopifyFetch_from.simps shopifyFetch_webhook_def
  shopifyFetch_webhook_from.simps fetch_def sleep_def console_def scripted_def
  response_with_def world0_def ok_def retryAfterSeconds_def parseInt10_def isSpace_def
  isDigit_def digitsValue_def digitVal_def

lemma shopifyFetch_from_served_mono:
  "served w \<le> served (snd (shopifyFetch_from srv req retries i w))"
proof -
  have "served w \<le> served (snd (shopifyFetch_from srv req retries i x))" if "served w \<le> served x" for x
    using that
    by (rule shopifyFetch_from_keeps [where P = "\<lambda>x. served w \<le> served x", rotated 3])
      (simp_all add: fetch_served served_console served_sleep)
  then show ?thesis by simp
qed

text \<open>In a whole run of the helper of the batch scripts the sleeps are the back-offs asked for.\<close>

lemma shopifyFetch_from_sleeps:
  "sleeps (trace (snd (shopifyFetch_from srv req retries i w))) =
     sleeps (trace w) @
     backoffs srv req (served w) (served (snd (shopifyFetch_from srv req retries i w)) - served w)"
proof (induction "retries - i" arbitrary: i w)
  case 0
  then have "\<not> i < retries" by simp
  then show ?case by (simp add: shopifyFetch_from_exhausted)
next
  case (Suc n)
  then have i: "i < retries" by simp
  show ?case
  proof (cases "srv (served w) req")
    case (Rejected msg)
    with i show ?thesis
      by (simp add: shopifyFetch_from_rejected fetch_def sleeps_append)
  next
    case (Responded res)
    show ?thesis
    proof (cases "status res = 429")
      case False
      with i Responded show ?thesis
        by (simp add: shopifyFetch_from_final fetch_def sleeps_append)
    next
      case True
      let ?b = "map_option (\<lambda>s. s * 1000) (retryAfterSeconds res)"
      let ?w1 = "sleep ?b (console (WarnRateLimit (retryAfterSeconds res)) (snd (fetch srv req w)))"
      let ?w' = "snd (shopifyFetch_from srv req retries (i + 1) ?w1)"
      have step: "shopifyFetch_from srv req retries i w = shopifyFetch_from srv req retries (i + 1) ?w1"
        using shopifyFetch_from_429 [of i retries srv w req res] i Responded True by simp
      have s1: "served ?w1 = Suc (served w)"
        by (simp add: served_sleep served_console fetch_served)
      have t1: "sleeps (trace ?w1) = sleeps (trace w) @ [?b]"
        by (simp add: trace_sleep trace_console trace_fetch sleeps_append)
      from Suc(2) have "n = retries - (i + 1)" by simp
      from Suc(1) [OF this, of ?w1]
      have ih: "sleeps (trace ?w') = sleeps (trace ?w1) @
          backoffs srv req (served ?w1) (served ?w' - served ?w1)" .
      have "served ?w1 \<le> served ?w'" by (rule shopifyFetch_from_served_mono)
      then have d: "served ?w' - served w = Suc (served ?w' - served ?w1)"
        using s1 by simp
      have "backoffs srv req (served w) (Suc (served ?w' - served ?w1)) =
          [?b] @ backoffs srv req (served ?w1) (served ?w' - served ?w1)"
        using Responded True by (simp add: s1)
      with ih t1 d show ?thesis by (simp add: step)
    qed
  qed
qed

lemma retryAfterSeconds_header:
  "retryAfter res = Some h \<Longrightarrow> h \<noteq> [] \<Longrightarrow> retryAfterSeconds res = parseInt10 h"
  by (simp add: retryAfterSeconds_def)

lemma retryAfterSeconds_default:
  "retryAfter res = None \<or> retryAfter res = Some [] \<Longrightarrow> retryAfterSeconds res = Some 2"
  by (auto simp: retryAfterSeconds_def parseInt10_def isSpace_def isDigit_def digitsValue_def
      digitVal_def)

text \<open>
  C8. At every attempt of either helper that meets a 429 response, the request is
  followed by the warning and by a sleep of 1000 times the number that \<open>parseInt\<close>
  reads from the \<open>Retry-After\<close> header, and only then by the next attempt. When the
  first \<open>k\<close> answers are 429 and the next one is a success, with \<open>k\<close> below \<open>retries\<close>,
  either helper returns that success after \<open>k + 1\<close> requests, and what it did is: for
  each 429 answer the request, the warning and the sleep it asked for, in their order,
  and then the last request. The number read is 2 when the header is absent or empty;
  it is the decimal number at the front of the header (after white space and a sign,
  leading zeros allowed, whatever follows the digits); and it is \<open>NaN\<close> when no digit
  stands there, as for a date. Over any run, the sleeps of the helper of the batch
  scripts are exactly the back-offs that its 429 answers asked for; those of the helper
  of the webhook function are these and, after every other failure but the last
  attempt's, one second.
\<close>

theorem shopifyFetch_backoff:
  "(i < retries \<and> srv (served w) req = Responded res \<and> status res = 429 \<longrightarrow>
      shopifyFetch_from srv req retries i w =
        shopifyFetch_from srv req retries (i + 1)
          (w\<lparr>served := served w + 1,
             trace := trace w @ [Requested req, Logged (WarnRateLimit (retryAfterSeconds res)),
               Slept (map_option (\<lambda>s. s * 1000) (retryAfterSeconds res))]\<rparr>) \<and>
      shopifyFetch_webhook_from srv req retries i w =
        shopifyFetch_webhook_from srv req retries (i + 1)
          (w\<lparr>served := served w + 1,
             trace := trace w @ [Requested req, Logged (WarnRateLimit (retryAfterSeconds res)),
               Slept (map_option (\<lambda>s. s * 1000) (retryAfterSeconds res))]\<rparr>)) \<and>
   (k < retries \<and> (\<forall>j<k. is429 (srv (served w + j) req)) \<and>
      srv (served w + k) req = Responded good \<and> ok good \<longrightarrow>
      shopifyFetch srv req retries w =
        (Inr good,
         w\<lparr>served := served w + k + 1,
           trace := trace w @ concat (map (rateLimited srv req) [served w..<served w + k])
                      @ [Requested req]\<rparr>) \<and>
      shopifyFetch_webhook srv req retries w =
        (Inr (Some good),
         w\<lparr>served := served w + k + 1,
           trace := trace w @ concat (map (rateLimited srv req) [served w..<served w + k])
                      @ [Requested req]\<rparr>)) \<and>
   (srv a req = Responded res \<longrightarrow>
      rateLimited srv req a =
        [Requested req, Logged (WarnRateLimit (retryAfterSeconds res)),
         Slept (map_option (\<lambda>s. s * 1000) (retryAfterSeconds res))]) \<and>
   (retryAfter res = None \<or> retryAfter res = Some [] \<longrightarrow> retryAfterSeconds res = Some 2) \<and>
   (retryAfter res = Some (String_nat n) \<longrightarrow> retryAfterSeconds res = Some (int n)) \<and>
   (retryAfter res = Some (ws @ sg @ replicate z (CHR ''0'') @ String_nat n @ rest) \<and>
      (\<forall>c \<in> set ws. isSpace c) \<and> (sg = [] \<or> sg = ''+'' \<or> sg = ''-'') \<and>
      (rest = [] \<or> \<not> isDigit (hd rest)) \<longrightarrow>
      retryAfterSeconds res = Some (if sg = ''-'' then - int n else int n)) \<and>
   (retryAfter res = Some (ws @ sg @ rest) \<and>
      (\<forall>c \<in> set ws. isSpace c) \<and> (sg = ''+'' \<or> sg = ''-'') \<and>
      (rest = [] \<or> \<not> isDigit (hd rest)) \<longrightarrow>
      retryAfterSeconds res = None) \<and>
   (retryAfter res = Some (ws @ rest) \<and> ws @ rest \<noteq> [] \<and> (\<forall>c \<in> set ws. isSpace c) \<and>
      (rest = [] \<or> (\<not> isDigit (hd rest) \<and> \<not> isSpace (hd rest) \<and> hd rest \<noteq> CHR ''+''
         \<and> hd rest \<noteq> CHR ''-'')) \<longrightarrow>
      retryAfterSeconds res = None) \<and>
   sleeps (trace (snd (shopifyFetch srv req retries w))) =
     sleeps (trace w) @
     backoffs srv req (served w) (served (snd (shopifyFetch srv req retries w)) - served w) \<and>
   sleeps (trace (snd (shopifyFetch_webhook srv req retries w))) =
     sleeps (trace w) @
     webhook_waits srv req retries (served w) 0
       (served (snd (shopifyFetch_webhook srv req retries w)) - served w)"
proof (intro conjI impI)
  assume a: "i < retries \<and> srv (served w) req = Responded res \<and> status res = 429"
  then show "shopifyFetch_from srv req retries i w =
        shopifyFetch_from srv req retries (i + 1)
          (w\<lparr>served := served w + 1,
             trace := trace w @ [Requested req, Logged (WarnRateLimit (retryAfterSeconds res)),
               Slept (map_option (\<lambda>s. s * 1000) (retryAfterSeconds res))]\<rparr>)"
    by (simp add: shopifyFetch_from_429 [of i retries srv w req res] fetch_def sleep_def console_def)
  from a show "shopifyFetch_webhook_from srv req retries i w =
        shopifyFetch_webhook_from srv req retries (i + 1)
          (w\<lparr>served := served w + 1,
             trace := trace w @ [Requested req, Logged (WarnRateLimit (retryAfterSeconds res)),
               Slept (map_option (\<lambda>s. s * 1000) (retryAfterSeconds res))]\<rparr>)"
    by (simp add: shopifyFetch_webhook_from_429 [of i retries srv w req res]
        fetch_def sleep_def console_def)
next
  assume a: "k < retries \<and> (\<forall>j<k. is429 (srv (served w + j) req)) \<and>
      srv (served w + k) req = Responded good \<and> ok good"
  then have k: "0 + k < retries" and all: "\<forall>j<k. is429 (srv (served w + j) req)"
    and g: "srv (served w + k) req = Responded good" and o: "ok good"
    by simp_all
  from o have n: "status good \<noteq> 429" by (auto simp: ok_def)
  from shopifyFetch_from_429s_then [of 0 k retries srv w req good] k all g n o
  show "shopifyFetch srv req retries w =
        (Inr good,
         w\<lparr>served := served w + k + 1,
           trace := trace w @ concat (map (rateLimited srv req) [served w..<served w + k])
                      @ [Requested req]\<rparr>)"
    by (simp add: shopifyFetch_def)
  from shopifyFetch_webhook_from_429s_then [of 0 k retries srv w req good] k all g o
  show "shopifyFetch_webhook srv req retries w =
        (Inr (Some good),
         w\<lparr>served := served w + k + 1,
           trace := trace w @ concat (map (rateLimited srv req) [served w..<served w + k])
                      @ [Requested req]\<rparr>)"
    by (simp add: shopifyFetch_webhook_def)
next
  assume "srv a req = Responded res"
  then show "rateLimited srv req a =
        [Requested req, Logged (WarnRateLimit (retryAfterSeconds res)),
         Slept (map_option (\<lambda>s. s * 1000) (retryAfterSeconds res))]"
    by (simp add: rateLimited_def)
next
  assume "retryAfter res = None \<or> retryAfter res = Some []"
  then show "retryAfterSeconds res = Some 2"
    by (rule retryAfterSeconds_default)
next
  assume "retryAfter res = Some (String_nat n)"
  then show "retryAfterSeconds res = Some (int n)"
    by (simp add: retryAfterSeconds_def String_nat_nonempty parseInt10_String_nat)
next
  assume a: "retryAfter res = Some (ws @ sg @ replicate z (CHR ''0'') @ String_nat n @ rest) \<and>
      (\<forall>c \<in> set ws. isSpace c) \<and> (sg = [] \<or> sg = ''+'' \<or> sg = ''-'') \<and>
      (rest = [] \<or> \<not> isDigit (hd rest))"
  then have h: "retryAfter res = Some (ws @ sg @ replicate z (CHR ''0'') @ String_nat n @ rest)"
    and w: "\<forall>c \<in> set ws. isSpace c" and s: "sg = [] \<or> sg = ''+'' \<or> sg = ''-''"
    and r: "rest = [] \<or> \<not> isDigit (hd rest)"
    by blast+
  have ne: "ws @ sg @ replicate z (CHR ''0'') @ String_nat n @ rest \<noteq> []"
    using String_nat_nonempty [of n] by simp
  show "retryAfterSeconds res = Some (if sg = ''-'' then - int n else int n)"
    unfolding retryAfterSeconds_header [OF h ne] using w s r by (rule parseInt10_decimal)
next
  assume a: "retryAfter res = Some (ws @ sg @ rest) \<and>
      (\<forall>c \<in> set ws. isSpace c) \<and> (sg = ''+'' \<or> sg = ''-'') \<and>
      (rest = [] \<or> \<not> isDigit (hd rest))"
  then have h: "retryAfter res = Some (ws @ sg @ rest)"
    and w: "\<forall>c \<in> set ws. isSpace c" and s: "sg = ''+'' \<or> sg = ''-''"
    and r: "rest = [] \<or> \<not> isDigit (hd rest)"
    by blast+
  from s have ne: "ws @ sg @ rest \<noteq> []" by auto
  show "retryAfterSeconds res = None"
    unfolding retryAfterSeconds_header [OF h ne] using w s r by (rule parseInt10_NaN_signed)
next
  assume a: "retryAfter res = Some (ws @ rest) \<and> ws @ rest \<noteq> [] \<and> (\<forall>c \<in> set ws. isSpace c) \<and>
      (rest = [] \<or> (\<not> isDigit (hd rest) \<and> \<not> isSpace (hd rest) \<and> hd rest \<noteq> CHR ''+''
         \<and> hd rest \<noteq> CHR ''-''))"
  then have h: "retryAfter res = Some (ws @ rest)" and ne: "ws @ rest \<noteq> []"
    and w: "\<forall>c \<in> set ws. isSpace c"
    and r: "rest = [] \<or> (\<not> isDigit (hd rest) \<and> \<not> isSpace (hd rest) \<and> hd rest \<noteq> CHR ''+''
         \<and> hd rest \<noteq> CHR ''-'')"
    by blast+
  show "retryAfterSeconds res = None"
    unfolding retryAfterSeconds_header [OF h ne] using w r by (rule parseInt10_NaN_unsigned)
next
  show "sleeps (trace (snd (shopifyFetch srv req retries w))) =
     sleeps (trace w) @
     backoffs srv req (served w) (served (snd (shopifyFetch srv req retries w)) - served w)"
    unfolding shopifyFetch_def by (rule shopifyFetch_from_sleeps)
next
  show "sleeps (trace (snd (shopifyFetch_webhook srv req retries w))) =
     sleeps (trace w) @
     webhook_waits srv req retries (served w) 0
       (served (snd (shopifyFetch_webhook srv req retries w)) - served w)"
    unfolding shopifyFetch_webhook_def by (rule shopifyFetch_webhook_from_sleeps)
qed

theorem shopifyFetch_backoff_witness:
  "scripted [(429, Some ''7'')] (served world0) sample_request
     = Responded (response_with 429 (Some ''7'')) \<and>
   status (response_with 429 (Some ''7'')) = 429 \<and>
   retryAfter (response_with 429 (Some ''7'')) = Some (String_nat 7) \<and>
   retryAfterSeconds (response_with 429 (Some ''7'')) = Some 7 \<and>
   shopifyFetch (scripted [(429, Some ''7'')]) sample_request 5 world0 =
     (Inr (response_with 200 None),
      \<lparr>served = 2,
       trace = [Requested sample_request, Logged (WarnRateLimit (Some 7)), Slept (Some 7000),
                Requested sample_request]\<rparr>) \<and>
   is429 (scripted [(429, Some '' 3.5''), (429, None)] 0 sample_request) \<and>
   is429 (scripted [(429, Some '' 3.5''), (429, None)] 1 sample_request) \<and>
   scripted [(429, Some '' 3.5''), (429, None)] 2 sample_request
     = Responded (response_with 200 None) \<and>
   ok (response_with 200 None) \<and>
   shopifyFetch_webhook (scripted [(429, Some '' 3.5''), (429, None)]) sample_request 3 world0 =
     (Inr (Some (response_with 200 None)),
      \<lparr>served = 3,
       trace = [Requested sample_request, Logged (WarnRateLimit (Some 3)), Slept (Some 3000),
                Requested sample_request, Logged (WarnRateLimit (Some 2)), Slept (Some 2000),
                Requested sample_request]\<rparr>) \<and>
   shopifyFetch (scripted [(429, Some '' 3.5''), (429, None)]) sample_request 5 world0 =
     (Inr (response_with 200 None),
      \<lparr>served = 3,
       trace = [Requested sample_request, Logged (WarnRateLimit (Some 3)), Slept (Some 3000),
                Requested sample_request, Logged (WarnRateLimit (Some 2)), Slept (Some 2000),
                Requested sample_request]\<rparr>) \<and>
   isSpace (CHR '' '') \<and> \<not> isDigit (CHR ''.'') \<and>
   retryAfterSeconds (response_with 429 (Some '' 3.5'')) = Some 3 \<and>
   retryAfterSeconds (response_with 429 (Some ''+007 s'')) = Some 7 \<and>
   retryAfterSeconds (response_with 429 (Some [])) = Some 2 \<and>
   retryAfterSeconds (response_with 429 (Some ''-'')) = None \<and>
   \<not> isDigit (CHR ''W'') \<and> \<not> isSpace (CHR ''W'') \<and>
   retryAfterSeconds (response_with 429 (Some ''Wed, 21 Oct 2015 07:28:00 GMT'')) = None \<and>
   rateLimited (scripted [(429, Some ''Wed, 21 Oct 2015 07:28:00 GMT'')]) sample_request 0 =
     [Requested sample_request, Logged (WarnRateLimit None), Slept None] \<and>
   sleeps (trace (snd (shopifyFetch (scripted [(429, Some ''7''), (429, None), (404, None)])
                         sample_request 5 world0))) = [Some 7000, Some 2000] \<and>
   sleeps (trace (snd (shopifyFetch_webhook (scripted [(500, None), (429, Some ''4'')])
                         sample_request 3 world0))) = [Some 1000, Some 4000]"
proof -
  let ?a = "scripted [(429, Some ''7'')]"
  let ?b = "scripted [(429, Some '' 3.5''), (429, None)]"
  let ?d = "scripted [(429, Some ''Wed, 21 Oct 2015 07:28:00 GMT'')]"
  let ?e = "scripted [(429, Some ''7''), (429, None), (404, None)]"
  let ?f = "scripted [(500, None), (429, Some ''4'')]"
  let ?date = "''Wed, 21 Oct 2015 07:28:00 GMT''"
  have h: "(0::nat) < 5"
      "?a (served world0) sample_request = Responded (response_with 429 (Some ''7''))"
      "status (response_with 429 (Some ''7'')) = 429"
    by (simp_all add: scripted_def world0_def response_with_def)
  have s: "retryAfter (response_with 429 (Some ''7'')) = Some (String_nat 7)"
    by (simp add: response_with_def String_nat.simps digitChar_def)
  note A = shopifyFetch_backoff [where i = 0 and retries = 5 and srv = ?a and w = world0
      and req = sample_request and res = "response_with 429 (Some ''7'')" and n = 7]
  from A h s
  have t: "shopifyFetch_from ?a sample_request 5 0 world0 =
        shopifyFetch_from ?a sample_request 5 (0 + 1)
          (world0\<lparr>served := served world0 + 1,
             trace := trace world0 @ [Requested sample_request,
               Logged (WarnRateLimit (retryAfterSeconds (response_with 429 (Some ''7'')))),
               Slept (map_option (\<lambda>s. s * 1000)
                 (retryAfterSeconds (response_with 429 (Some ''7''))))]\<rparr>)"
    and r: "retryAfterSeconds (response_with 429 (Some ''7'')) = Some 7"
    by simp_all
  have e: "shopifyFetch_from ?a sample_request 5 (0 + 1)
          (world0\<lparr>served := served world0 + 1,
             trace := trace world0 @ [Requested sample_request,
               Logged (WarnRateLimit (Some 7)), Slept (Some 7000)]\<rparr>) =
     (Inr (response_with 200 None),
      \<lparr>served = 2,
       trace = [Requested sample_request, Logged (WarnRateLimit (Some 7)), Slept (Some 7000),
                Requested sample_request]\<rparr>)"
    by (simp add: shopifyFetch_from.simps fetch_def scripted_def response_with_def world0_def
        ok_def)
  from t r e have c1: "shopifyFetch ?a sample_request 5 world0 =
     (Inr (response_with 200 None),
      \<lparr>served = 2,
       trace = [Requested sample_request, Logged (WarnRateLimit (Some 7)), Slept (Some 7000),
                Requested sample_request]\<rparr>)"
    by (simp add: shopifyFetch_def)
  have b01: "is429 (?b 0 sample_request)" "is429 (?b 1 sample_request)"
    by (simp_all add: scripted_def is429_def response_with_def)
  then have ball: "\<forall>j<2. is429 (?b (served world0 + j) sample_request)"
    by (auto simp: world0_def dest!: less_2_cases)
  have b2: "?b 2 sample_request = Responded (response_with 200 None)" "ok (response_with 200 None)"
    by (simp_all add: scripted_def response_with_def ok_def)
  have b2': "?b (served world0 + 2) sample_request = Responded (response_with 200 None)"
    by (simp add: scripted_def world0_def)
  have lt: "(2::nat) < 3" "(2::nat) < 5" by simp_all
  have hdr: "isSpace (CHR '' '')" "\<not> isDigit (CHR ''.'')" "\<not> isDigit (CHR ''W'')"
      "\<not> isSpace (CHR ''W'')" "\<not> isDigit (CHR '' '')"
    by (simp_all add: isSpace_def isDigit_def)
  have sn: "String_nat 3 = ''3''" "String_nat 7 = ''7''"
    by (simp_all add: String_nat.simps digitChar_def)
  note C = shopifyFetch_backoff [where res = "response_with 429 (Some '' 3.5'')" and ws = "'' ''"
      and sg = "[]" and z = 0 and n = 3 and rest = "''.5''" and srv = ?b and a = 0
      and req = sample_request]
  from C hdr have c4: "retryAfterSeconds (response_with 429 (Some '' 3.5'')) = Some 3"
    by (simp add: sn response_with_def)
  note C' = shopifyFetch_backoff [where res = "response_with 429 (Some ''+007 s'')" and ws = "[]"
      and sg = "''+''" and z = 2 and n = 7 and rest = "'' s''"]
  from C' hdr have c5: "retryAfterSeconds (response_with 429 (Some ''+007 s'')) = Some 7"
    by (simp add: sn response_with_def replicate_numeral)
  note C2 = shopifyFetch_backoff [where res = "response_with 429 (Some [])"]
  from C2 have c6: "retryAfterSeconds (response_with 429 (Some [])) = Some 2"
    by (simp add: response_with_def)
  note C3 = shopifyFetch_backoff [where res = "response_with 429 (Some ''-'')" and ws = "[]"
      and sg = "''-''" and rest = "[]"]
  from C3 have c7: "retryAfterSeconds (response_with 429 (Some ''-'')) = None"
    by (simp add: response_with_def)
  note D = shopifyFetch_backoff [where res = "response_with 429 (Some ?date)" and ws = "[]"
      and rest = ?date and srv = ?d and a = 0 and req = sample_request]
  from D hdr have c8: "retryAfterSeconds (response_with 429 (Some ?date)) = None"
    by (simp add: response_with_def)
  have "?d 0 sample_request = Responded (response_with 429 (Some ?date))"
    by (simp add: scripted_def)
  with D c8 have c9: "rateLimited ?d sample_request 0 =
     [Requested sample_request, Logged (WarnRateLimit None), Slept None]"
    by simp
  have rl: "rateLimited ?b sample_request 0 =
        [Requested sample_request, Logged (WarnRateLimit (Some 3)), Slept (Some 3000)]"
    using C c4 by (simp add: scripted_def)
  note B1 = shopifyFetch_backoff [where res = "response_with 429 None" and srv = ?b and a = "Suc 0"
      and req = sample_request]
  have rl1: "rateLimited ?b sample_request (Suc 0) =
        [Requested sample_request, Logged (WarnRateLimit (Some 2)), Slept (Some 2000)]"
    using B1 by (simp add: scripted_def response_with_def)
  have upt2: "[0..<2] = [0, Suc 0]" by (simp add: upt_rec)
  note B = shopifyFetch_backoff [where retries = 3 and srv = ?b and w = world0
      and req = sample_request and k = 2 and good = "response_with 200 None"]
  from B lt(1) ball b2' b2(2) have "shopifyFetch_webhook ?b sample_request 3 world0 =
        (Inr (Some (response_with 200 None)),
         world0\<lparr>served := served world0 + 2 + 1,
           trace := trace world0 @ concat (map (rateLimited ?b sample_request)
                      [served world0..<served world0 + 2]) @ [Requested sample_request]\<rparr>)"
    by blast
  then have c2: "shopifyFetch_webhook ?b sample_request 3 world0 =
     (Inr (Some (response_with 200 None)),
      \<lparr>served = 3,
       trace = [Requested sample_request, Logged (WarnRateLimit (Some 3)), Slept (Some 3000),
                Requested sample_request, Logged (WarnRateLimit (Some 2)), Slept (Some 2000),
                Requested sample_request]\<rparr>)"
    by (simp add: world0_def upt2 rl rl1)
  note B5 = shopifyFetch_backoff [where retries = 5 and srv = ?b and w = world0
      and req = sample_request and k = 2 and good = "response_with 200 None"]
  from B5 lt(2) ball b2' b2(2) have "shopifyFetch ?b sample_request 5 world0 =
        (Inr (response_with 200 None),
         world0\<lparr>served := served world0 + 2 + 1,
           trace := trace world0 @ concat (map (rateLimited ?b sample_request)
                      [served world0..<served world0 + 2]) @ [Requested sample_request]\<rparr>)"
    by blast
  then have c3: "shopifyFetch ?b sample_request 5 world0 =
     (Inr (response_with 200 None),
      \<lparr>served = 3,
       trace = [Requested sample_request, Logged (WarnRateLimit (Some 3)), Slept (Some 3000),
                Requested sample_request, Logged (WarnRateLimit (Some 2)), Slept (Some 2000),
                Requested sample_request]\<rparr>)"
    by (simp add: world0_def upt2 rl rl1)
  have w0: "served world0 = 0" "trace world0 = []" by (simp_all add: world0_def)
  have se: "served (snd (shopifyFetch ?e sample_request 5 world0)) = 3"
    by (simp add: fetch_eval)
  have be: "backoffs ?e sample_request 0 3 = [Some 7000, Some 2000]"
    by (simp add: numeral_3_eq_3 scripted_def response_with_def retryAfterSeconds_def
        parseInt10_def isSpace_def isDigit_def digitsValue_def digitVal_def)
  note E = shopifyFetch_backoff [where srv = ?e and req = sample_request and retries = 5
      and w = world0]
  from E have "sleeps (trace (snd (shopifyFetch ?e sample_request 5 world0))) =
      sleeps (trace world0) @
      backoffs ?e sample_request (served world0)
        (served (snd (shopifyFetch ?e sample_request 5 world0)) - served world0)"
    by blast
  then have c10: "sleeps (trace (snd (shopifyFetch ?e sample_request 5 world0)))
      = [Some 7000, Some 2000]"
    by (simp add: se be w0)
  have sf: "served (snd (shopifyFetch_webhook ?f sample_request 3 world0)) = 3"
    by (simp add: fetch_eval)
  have wf: "webhook_waits ?f sample_request 3 0 0 3 = [Some 1000, Some 4000]"
    by (simp add: numeral_3_eq_3 scripted_def response_with_def retryAfterSeconds_def
        parseInt10_def isSpace_def isDigit_def digitsValue_def digitVal_def ok_def)
  note F = shopifyFetch_backoff [where srv = ?f and req = sample_request and retries = 3
      and w = world0]
  from F have "sleeps (trace (snd (shopifyFetch_webhook ?f sample_request 3 world0))) =
      sleeps (trace world0) @
      webhook_waits ?f sample_request 3 (served world0) 0
        (served (snd (shopifyFetch_webhook ?f sample_request 3 world0)) - served world0)"
    by blast
  then have c11: "sleeps (trace (snd (shopifyFetch_webhook ?f sample_request 3 world0)))
      = [Some 1000, Some 4000]"
    by (simp add: sf wf w0)
  from h(2,3) s r c1 b01 b2 c2 c3 hdr(1-4) c4 c5 c6 c7 c8 c9 c10 c11 show ?thesis
    by blast
qed

text \<open>
  C2, as the claim states it, fails for the helper of the webhook function: a 500
  response to the first of three attempts is logged, followed by a sleep of one second
  and by a second request, whose response the helper returns.
\<close>

theorem shopifyFetch_webhook_retries_500:
  "shopifyFetch_webhook (scripted [(500, None)]) sample_request 3 world0 =
     (Inr (Some (response_with 200 None)),
      \<lparr>served = 2,
       trace = [Requested sample_request,
                Logged (ErrorRequest 1 3 (HttpErrorText 500 ''body'')), Slept (Some 1000),
                Requested sample_request]\<rparr>)"
  by (simp add: fetch_eval)

text \<open>
  C2, amended. The helper of the batch scripts issues a request again only after a 429
  response: when all \<open>retries\<close> attempts meet 429 it throws after exactly \<open>retries\<close>
  requests; the first response that is not 429 ends it at once, returned when \<open>ok\<close> and
  thrown otherwise. The helper of the webhook function goes on after a 429 response and
  also after an error response that is not 429 (sleeping one second), and throws the
  error only at the last attempt.
\<close>

theorem shopifyFetch_retry_policy:
  "((\<forall>j<retries. is429 (srv (served w + j) req)) \<longrightarrow>
      fst (shopifyFetch srv req retries w) = Inl (RetriesExhausted retries (url req)) \<and>
      served (snd (shopifyFetch srv req retries w)) = served w + retries) \<and>
   (k < retries \<and> (\<forall>j<k. is429 (srv (served w + j) req)) \<and>
      srv (served w + k) req = Responded res \<and> status res \<noteq> 429 \<longrightarrow>
      fst (shopifyFetch srv req retries w) =
        (if ok res then Inr res else Inl (HttpError (status res) (statusText res))) \<and>
      served (snd (shopifyFetch srv req retries w)) = served w + k + 1) \<and>
   (i < retries \<and> srv (served w) req = Responded res \<and> status res = 429 \<longrightarrow>
      shopifyFetch_webhook_from srv req retries i w =
        shopifyFetch_webhook_from srv req retries (i + 1)
          (sleep (map_option (\<lambda>s. s * 1000) (retryAfterSeconds res))
             (console (WarnRateLimit (retryAfterSeconds res)) (snd (fetch srv req w))))) \<and>
   (i < retries \<and> srv (served w) req = Responded res \<and> status res \<noteq> 429 \<and> \<not> ok res \<longrightarrow>
      shopifyFetch_webhook_from srv req retries i w =
        (if i = retries - 1
         then (Inl (HttpErrorText (status res) (body_text res)),
               console (ErrorRequest (i + 1) retries (HttpErrorText (status res) (body_text res)))
                 (snd (fetch srv req w)))
         else shopifyFetch_webhook_from srv req retries (i + 1)
                (sleep (Some 1000)
                   (console (ErrorRequest (i + 1) retries
                              (HttpErrorText (status res) (body_text res)))
                      (snd (fetch srv req w))))))"
proof (intro conjI impI)
  assume all: "\<forall>j<retries. is429 (srv (served w + j) req)"
  from shopifyFetch_from_429s [of 0 retries retries srv w req] all
  obtain w' where w': "served w' = served w + retries"
    "shopifyFetch_from srv req retries 0 w = shopifyFetch_from srv req retries (0 + retries) w'"
    by auto
  have r: "shopifyFetch srv req retries w = (Inl (RetriesExhausted retries (url req)), w')"
    using w'(2) by (simp add: shopifyFetch_def shopifyFetch_from_exhausted)
  show "fst (shopifyFetch srv req retries w) = Inl (RetriesExhausted retries (url req))"
    by (simp add: r)
  show "served (snd (shopifyFetch srv req retries w)) = served w + retries"
    by (simp add: r w'(1))
next
  assume a: "k < retries \<and> (\<forall>j<k. is429 (srv (served w + j) req)) \<and>
      srv (served w + k) req = Responded res \<and> status res \<noteq> 429"
  then have "0 + k \<le> retries" and "\<forall>j<k. is429 (srv (served w + j) req)" by simp_all
  from shopifyFetch_from_429s [of 0 k retries srv w req] this
  obtain w' where w': "served w' = served w + k"
    "shopifyFetch_from srv req retries 0 w = shopifyFetch_from srv req retries (0 + k) w'"
    by auto
  from a w'(1) have "k < retries" "srv (served w') req = Responded res" "status res \<noteq> 429"
    by simp_all
  from shopifyFetch_from_final [of k retries srv w' req res] this
  have r: "shopifyFetch srv req retries w =
      (if ok res then Inr res else Inl (HttpError (status res) (statusText res)),
       snd (fetch srv req w'))"
    using w'(2) by (simp add: shopifyFetch_def)
  show "fst (shopifyFetch srv req retries w) =
        (if ok res then Inr res else Inl (HttpError (status res) (statusText res)))"
    by (simp add: r)
  show "served (snd (shopifyFetch srv req retries w)) = served w + k + 1"
    by (simp add: r fetch_served w'(1))
next
  assume "i < retries \<and> srv (served w) req = Responded res \<and> status res = 429"
  then show "shopifyFetch_webhook_from srv req retries i w =
        shopifyFetch_webhook_from srv req retries (i + 1)
          (sleep (map_option (\<lambda>s. s * 1000) (retryAfterSeconds res))
             (console (WarnRateLimit (retryAfterSeconds res)) (snd (fetch srv req w))))"
    by (simp add: shopifyFetch_webhook_from_429)
next
  assume "i < retries \<and> srv (served w) req = Responded res \<and> status res \<noteq> 429 \<and> \<not> ok res"
  then show "shopifyFetch_webhook_from srv req retries i w =
        (if i = retries - 1
         then (Inl (HttpErrorText (status res) (body_text res)),
               console (ErrorRequest (i + 1) retries (HttpErrorText (status res) (body_text res)))
                 (snd (fetch srv req w)))
         else shopifyFetch_webhook_from srv req retries (i + 1)
                (sleep (Some 1000)
                   (console (ErrorRequest (i + 1) retries
                              (HttpErrorText (status res) (body_text res)))
                      (snd (fetch srv req w)))))"
    using shopifyFetch_webhook_from_error [of i retries srv w req res] by simp
qed

theorem shopifyFetch_retry_policy_witness:
  "is429 (scripted (replicate 5 (429, None)) 0 sample_request) \<and>
   is429 (scripted (replicate 5 (429, None)) 4 sample_request) \<and>
   shopifyFetch (scripted (replicate 5 (429, None))) sample_request 5 world0 =
     (Inl (RetriesExhausted 5 (url sample_request)),
      snd (shopifyFetch (scripted (replicate 5 (429, None))) sample_request 5 world0)) \<and>
   served (snd (shopifyFetch (scripted (replicate 5 (429, None))) sample_request 5 world0)) = 5 \<and>
   is429 (scripted [(429, Some ''1''), (429, None), (404, None)] 0 sample_request) \<and>
   is429 (scripted [(429, Some ''1''), (429, None), (404, None)] 1 sample_request) \<and>
   scripted [(429, Some ''1''), (429, None), (404, None)] 2 sample_request
     = Responded (response_with 404 None) \<and>
   fst (shopifyFetch (scripted [(429, Some ''1''), (429, None), (404, None)]) sample_request 5 world0)
     = Inl (HttpError 404 ''status'') \<and>
   served (snd (shopifyFetch (scripted [(429, Some ''1''), (429, None), (404, None)])
     sample_request 5 world0)) = 3 \<and>
   scripted [(500, None)] (served world0) sample_request = Responded (response_with 500 None) \<and>
   \<not> ok (response_with 500 None) \<and>
   shopifyFetch_webhook_from (scripted [(500, None)]) sample_request 3 0 world0 =
     shopifyFetch_webhook_from (scripted [(500, None)]) sample_request 3 1
       \<lparr>served = 1,
        trace = [Requested sample_request,
                 Logged (ErrorRequest 1 3 (HttpErrorText 500 ''body'')), Slept (Some 1000)]\<rparr>"
proof -
  let ?a = "scripted (replicate 5 (429, None))"
  let ?b = "scripted [(429, Some ''1''), (429, None), (404, None)]"
  let ?c = "scripted [(500, None)]"
  have a: "\<forall>j<5. is429 (?a (served world0 + j) sample_request)"
    by (simp add: scripted_def is429_def response_with_def world0_def)
  have a04: "is429 (?a 0 sample_request) \<and> is429 (?a 4 sample_request)"
    by (simp add: scripted_def is429_def response_with_def)
  have b01: "is429 (?b 0 sample_request) \<and> is429 (?b 1 sample_request)"
    by (simp add: scripted_def is429_def response_with_def)
  then have b: "\<forall>j<2. is429 (?b (served world0 + j) sample_request)"
    by (auto simp: world0_def dest!: less_2_cases)
  have b2: "?b (served world0 + 2) sample_request = Responded (response_with 404 None)"
    "status (response_with 404 None) \<noteq> 429" "\<not> ok (response_with 404 None)"
    "status (response_with 404 None) = 404" "statusText (response_with 404 None) = ''status''"
    by (simp_all add: scripted_def world0_def response_with_def ok_def)
  have c: "?c (served world0) sample_request = Responded (response_with 500 None)"
    "status (response_with 500 None) \<noteq> 429" "\<not> ok (response_with 500 None)"
    "status (response_with 500 None) = 500" "body_text (response_with 500 None) = ''body''"
    by (simp_all add: scripted_def world0_def response_with_def ok_def)
  note A = shopifyFetch_retry_policy [of 5 ?a world0 sample_request 0 "response_with 429 None" 0]
  note B = shopifyFetch_retry_policy [of 5 ?b world0 sample_request 2 "response_with 404 None" 0]
  note C = shopifyFetch_retry_policy [of 3 ?c world0 sample_request 0 "response_with 500 None" 0]
  from A a have ra: "fst (shopifyFetch ?a sample_request 5 world0)
        = Inl (RetriesExhausted 5 (url sample_request))"
      "served (snd (shopifyFetch ?a sample_request 5 world0)) = 5"
    by (simp_all add: world0_def)
  from B b b2 have rb: "fst (shopifyFetch ?b sample_request 5 world0) = Inl (HttpError 404 ''status'')"
      "served (snd (shopifyFetch ?b sample_request 5 world0)) = 3"
    by (simp_all add: world0_def)
  from C c have rc: "shopifyFetch_webhook_from ?c sample_request 3 0 world0 =
     shopifyFetch_webhook_from ?c sample_request 3 1
       \<lparr>served = 1,
        trace = [Requested sample_request,
                 Logged (ErrorRequest 1 3 (HttpErrorText 500 ''body'')), Slept (Some 1000)]\<rparr>"
    by (simp add: world0_def fetch_def sleep_def console_def)
  have pa: "shopifyFetch ?a sample_request 5 world0 =
     (Inl (RetriesExhausted 5 (url sample_request)), snd (shopifyFetch ?a sample_request 5 world0))"
    using ra(1) by (simp add: prod_eq_iff)
  have b2': "?b 2 sample_request = Responded (response_with 404 None)"
    by (simp add: scripted_def)
  from a04 pa ra(2) b01 b2' rb c(1,3) rc show ?thesis
    by blast
qed

section \<open>The link header\<close>

lemma startsWith_append: "startsWith (p @ b) p"
  by (simp add: startsWith_def)

lemma startsWith_iff: "startsWith s p \<longleftrightarrow> (\<exists>t. s = p @ t)"
proof
  assume "startsWith s p"
  then have "s = p @ drop (length p) s"
    by (metis append_take_drop_id startsWith_def)
  then show "\<exists>t. s = p @ t" ..
next
  assume "\<exists>t. s = p @ t"
  then show "startsWith s p" by (auto simp: startsWith_def)
qed

lemma includes_str_append: "includes_str (a @ p @ b) p"
proof (induction a)
  case Nil
  show ?case
  proof (cases "p @ b")
    case Nil
    then show ?thesis by simp
  next
    case (Cons c cs)
    have "startsWith (p @ b) p" by (rule startsWith_append)
    then show ?thesis using Cons by simp
  qed
next
  case (Cons x a)
  then show ?case by simp
qed

lemma close_rel_next_Cons: "close_rel_next = CHR ''>'' # ''; '' @ rel_next"
  by (simp add: close_rel_next_def)

text \<open>
  A match of the pattern that starts at the first character: the characters up to the
  next \<^verbatim>\<open>>\<close> are the group, and the text \<^verbatim>\<open>>; rel="next"\<close> follows.
\<close>

lemma match_here:
  assumes "u \<noteq> []" "CHR ''>'' \<notin> set u"
  shows "takeWhile (\<lambda>x. x \<noteq> CHR ''>'') (u @ close_rel_next @ post) = u"
    and "dropWhile (\<lambda>x. x \<noteq> CHR ''>'') (u @ close_rel_next @ post) = close_rel_next @ post"
proof -
  obtain t where t: "close_rel_next @ post = CHR ''>'' # t"
    by (simp add: close_rel_next_Cons)
  have all: "\<forall>x \<in> set u. x \<noteq> CHR ''>''" using assms(2) by blast
  show "takeWhile (\<lambda>x. x \<noteq> CHR ''>'') (u @ close_rel_next @ post) = u"
    using all by (simp add: t takeWhile_append2)
  show "dropWhile (\<lambda>x. x \<noteq> CHR ''>'') (u @ close_rel_next @ post) = close_rel_next @ post"
    using all by (simp add: t dropWhile_append2)
qed

lemma match_here_iff:
  "(takeWhile (\<lambda>x. x \<noteq> CHR ''>'') cs \<noteq> []
      \<and> startsWith (dropWhile (\<lambda>x. x \<noteq> CHR ''>'') cs) close_rel_next
      \<and> u = takeWhile (\<lambda>x. x \<noteq> CHR ''>'') cs)
   \<longleftrightarrow> (\<exists>post. cs = u @ close_rel_next @ post \<and> u \<noteq> [] \<and> CHR ''>'' \<notin> set u)"
proof
  assume a: "takeWhile (\<lambda>x. x \<noteq> CHR ''>'') cs \<noteq> []
      \<and> startsWith (dropWhile (\<lambda>x. x \<noteq> CHR ''>'') cs) close_rel_next
      \<and> u = takeWhile (\<lambda>x. x \<noteq> CHR ''>'') cs"
  then obtain post where p: "dropWhile (\<lambda>x. x \<noteq> CHR ''>'') cs = close_rel_next @ post"
    by (auto simp: startsWith_iff)
  have "cs = takeWhile (\<lambda>x. x \<noteq> CHR ''>'') cs @ dropWhile (\<lambda>x. x \<noteq> CHR ''>'') cs" by simp
  with a p have "cs = u @ close_rel_next @ post" by simp
  moreover from a have "u \<noteq> []" by simp
  moreover have "CHR ''>'' \<notin> set u"
  proof
    assume "CHR ''>'' \<in> set u"
    with a have "CHR ''>'' \<in> set (takeWhile (\<lambda>x. x \<noteq> CHR ''>'') cs)" by simp
    then show False by (auto dest: set_takeWhileD)
  qed
  ultimately show "\<exists>post. cs = u @ close_rel_next @ post \<and> u \<noteq> [] \<and> CHR ''>'' \<notin> set u"
    by blast
next
  assume "\<exists>post. cs = u @ close_rel_next @ post \<and> u \<noteq> [] \<and> CHR ''>'' \<notin> set u"
  then obtain post where c: "cs = u @ close_rel_next @ post" and u: "u \<noteq> []" "CHR ''>'' \<notin> set u"
    by blast
  show "takeWhile (\<lambda>x. x \<noteq> CHR ''>'') cs \<noteq> []
      \<and> startsWith (dropWhile (\<lambda>x. x \<noteq> CHR ''>'') cs) close_rel_next
      \<and> u = takeWhile (\<lambda>x. x \<noteq> CHR ''>'') cs"
    unfolding c using u by (simp add: match_here startsWith_append)
qed

lemma matchNext_simple:
  assumes "u \<noteq> []" "CHR ''>'' \<notin> set u"
  shows "matchNext (CHR ''<'' # u @ close_rel_next @ rest) = Some u"
  using assms by (simp add: match_here startsWith_append)

lemma matchNext_nonempty: "matchNext h = Some u \<Longrightarrow> u \<noteq> []"
  by (induction h) (auto split: if_splits)

text \<open>Text without \<^verbatim>\<open><\<close> holds no match and is passed over.\<close>

lemma matchNext_skip: "CHR ''<'' \<notin> set pre \<Longrightarrow> matchNext (pre @ t) = matchNext t"
  by (induction pre) auto

lemma matchNext_no_lt: "CHR ''<'' \<notin> set t \<Longrightarrow> matchNext t = None"
  using matchNext_skip [of t "[]"] by simp

text \<open>
  The result of \<open>matchNext\<close> is the group of the leftmost match: the header is
  \<open>pre @ <u>; rel="next" @ post\<close> with \<open>u\<close> not empty and free of \<^verbatim>\<open>>\<close>, and no such
  decomposition has a shorter \<open>pre\<close>.
\<close>

lemma matchNext_Some_iff:
  "matchNext h = Some u \<longleftrightarrow>
     (\<exists>pre post. (h = pre @ CHR ''<'' # u @ close_rel_next @ post \<and> u \<noteq> []
          \<and> CHR ''>'' \<notin> set u) \<and>
        (\<forall>pre' u' post'. h = pre' @ CHR ''<'' # u' @ close_rel_next @ post' \<and> u' \<noteq> []
            \<and> CHR ''>'' \<notin> set u' \<longrightarrow> length pre \<le> length pre'))"
proof (induction h)
  case Nil
  then show ?case by simp
next
  case (Cons c cs)
  let ?H = "c = CHR ''<'' \<and> takeWhile (\<lambda>x. x \<noteq> CHR ''>'') cs \<noteq> []
          \<and> startsWith (dropWhile (\<lambda>x. x \<noteq> CHR ''>'') cs) close_rel_next"
  let ?D = "\<lambda>h pre u post. h = pre @ CHR ''<'' # u @ close_rel_next @ post \<and> u \<noteq> []
          \<and> CHR ''>'' \<notin> set u"
  have here: "?H \<longleftrightarrow> (\<exists>u post. ?D (c # cs) [] u post)"
  proof
    assume h: ?H
    with match_here_iff [of cs "takeWhile (\<lambda>x. x \<noteq> CHR ''>'') cs"]
    obtain post where "cs = takeWhile (\<lambda>x. x \<noteq> CHR ''>'') cs @ close_rel_next @ post"
        "takeWhile (\<lambda>x. x \<noteq> CHR ''>'') cs \<noteq> []"
        "CHR ''>'' \<notin> set (takeWhile (\<lambda>x. x \<noteq> CHR ''>'') cs)"
      by blast
    with h have "?D (c # cs) [] (takeWhile (\<lambda>x. x \<noteq> CHR ''>'') cs) post" by simp
    then show "\<exists>u post. ?D (c # cs) [] u post" by blast
  next
    assume "\<exists>u post. ?D (c # cs) [] u post"
    then obtain u post where d: "c = CHR ''<''" "cs = u @ close_rel_next @ post" "u \<noteq> []"
        "CHR ''>'' \<notin> set u"
      by auto
    with match_here_iff [of cs u] show ?H by blast
  qed
  show ?case
  proof (cases ?H)
    case True
    let ?u0 = "takeWhile (\<lambda>x. x \<noteq> CHR ''>'') cs"
    from True have m: "matchNext (c # cs) = Some ?u0" by simp
    from True match_here_iff [of cs ?u0] obtain post0 where
      d0: "?D (c # cs) [] ?u0 post0" by auto
    show ?thesis
    proof
      assume "matchNext (c # cs) = Some u"
      with m have "u = ?u0" by simp
      with d0 have "?D (c # cs) [] u post0" by simp
      then have "?D (c # cs) [] u post0 \<and>
          (\<forall>pre' u' post'. ?D (c # cs) pre' u' post' \<longrightarrow> length ([]::string) \<le> length pre')"
        by simp
      then show "\<exists>pre post. ?D (c # cs) pre u post \<and>
          (\<forall>pre' u' post'. ?D (c # cs) pre' u' post' \<longrightarrow> length pre \<le> length pre')"
        by blast
    next
      assume "\<exists>pre post. ?D (c # cs) pre u post \<and>
          (\<forall>pre' u' post'. ?D (c # cs) pre' u' post' \<longrightarrow> length pre \<le> length pre')"
      then obtain pre post where d: "?D (c # cs) pre u post"
        and least: "\<forall>pre' u' post'. ?D (c # cs) pre' u' post' \<longrightarrow> length pre \<le> length pre'"
        by blast
      from least d0 have "length pre \<le> length ([]::string)" by blast
      then have "pre = []" by simp
      with d have "cs = u @ close_rel_next @ post" "u \<noteq> []" "CHR ''>'' \<notin> set u" by simp_all
      then have "u = ?u0" by (simp add: match_here)
      with m show "matchNext (c # cs) = Some u" by simp
    qed
  next
    case False
    then have m: "matchNext (c # cs) = matchNext cs" by auto
    from False here have none: "\<not> ?D (c # cs) [] u' post'" for u' post' by blast
    have shift: "?D (c # cs) pre' u' post' \<longleftrightarrow> (\<exists>p. pre' = c # p \<and> ?D cs p u' post')"
      for pre' u' post'
    proof (cases pre')
      case Nil
      with none [of u' post'] show ?thesis by simp
    next
      case (Cons x p)
      then show ?thesis by auto
    qed
    show ?thesis
    proof
      assume "matchNext (c # cs) = Some u"
      with m Cons.IH obtain pre post where d: "?D cs pre u post"
        and least: "\<forall>pre' u' post'. ?D cs pre' u' post' \<longrightarrow> length pre \<le> length pre'"
        by auto
      from d have d': "?D (c # cs) (c # pre) u post" by simp
      have "\<forall>pre' u' post'. ?D (c # cs) pre' u' post' \<longrightarrow> length (c # pre) \<le> length pre'"
      proof (intro allI impI)
        fix pre' u' post' assume "?D (c # cs) pre' u' post'"
        with shift [of pre' u' post'] obtain p where p: "pre' = c # p" "?D cs p u' post'" by blast
        with least have "length pre \<le> length p" by blast
        with p(1) show "length (c # pre) \<le> length pre'" by simp
      qed
      with d' show "\<exists>pre post. ?D (c # cs) pre u post \<and>
          (\<forall>pre' u' post'. ?D (c # cs) pre' u' post' \<longrightarrow> length pre \<le> length pre')"
        by blast
    next
      assume "\<exists>pre post. ?D (c # cs) pre u post \<and>
          (\<forall>pre' u' post'. ?D (c # cs) pre' u' post' \<longrightarrow> length pre \<le> length pre')"
      then obtain pre post where d: "?D (c # cs) pre u post"
        and least: "\<forall>pre' u' post'. ?D (c # cs) pre' u' post' \<longrightarrow> length pre \<le> length pre'"
        by blast
      from d shift [of pre u post] obtain p where p: "pre = c # p" "?D cs p u post" by blast
      have "\<forall>pre' u' post'. ?D cs pre' u' post' \<longrightarrow> length p \<le> length pre'"
      proof (intro allI impI)
        fix pre' u' post' assume "?D cs pre' u' post'"
        then have "?D (c # cs) (c # pre') u' post'" by simp
        with least have "length pre \<le> length (c # pre')" by blast
        with p(1) show "length p \<le> length pre'" by simp
      qed
      with p(2) Cons.IH have "matchNext cs = Some u" by blast
      with m show "matchNext (c # cs) = Some u" by simp
    qed
  qed
qed

lemma matchNext_None_iff:
  "matchNext h = None \<longleftrightarrow>
     \<not> (\<exists>pre u post. h = pre @ CHR ''<'' # u @ close_rel_next @ post \<and> u \<noteq> []
            \<and> CHR ''>'' \<notin> set u)"
proof
  assume n: "matchNext h = None"
  show "\<not> (\<exists>pre u post. h = pre @ CHR ''<'' # u @ close_rel_next @ post \<and> u \<noteq> []
            \<and> CHR ''>'' \<notin> set u)"
  proof
    assume "\<exists>pre u post. h = pre @ CHR ''<'' # u @ close_rel_next @ post \<and> u \<noteq> []
            \<and> CHR ''>'' \<notin> set u"
    then obtain pre u post where "h = pre @ CHR ''<'' # u @ close_rel_next @ post"
        "u \<noteq> []" "CHR ''>'' \<notin> set u"
      by blast
    then have "matchNext h \<noteq> None"
    proof (induction pre arbitrary: h)
      case Nil
      then show ?case using matchNext_simple [of u post] by simp
    next
      case (Cons x pre)
      have "matchNext (pre @ CHR ''<'' # u @ close_rel_next @ post) \<noteq> None"
        by (rule Cons.IH) (use Cons.prems in simp_all)
      then show ?case unfolding Cons.prems(1) by auto
    qed
    with n show False by simp
  qed
next
  assume a: "\<not> (\<exists>pre u post. h = pre @ CHR ''<'' # u @ close_rel_next @ post \<and> u \<noteq> []
            \<and> CHR ''>'' \<notin> set u)"
  show "matchNext h = None"
  proof (cases "matchNext h")
    case None
    then show ?thesis .
  next
    case (Some u)
    with matchNext_Some_iff [of h u] a show ?thesis by blast
  qed
qed

lemma nextUrl_nonempty: "nextUrl res = Some u \<Longrightarrow> u \<noteq> []"
  by (auto simp: nextUrl_def split: option.splits if_splits dest: matchNext_nonempty)

lemma nextUrl_no_header: "link res = None \<Longrightarrow> nextUrl res = None"
  by (simp add: nextUrl_def)

lemma nextUrl_no_rel_next:
  "link res = Some h \<Longrightarrow> \<not> includes_str h rel_next \<Longrightarrow> nextUrl res = None"
  by (simp add: nextUrl_def)

lemma includes_rel_next: "includes_str (pre @ CHR ''<'' # u @ close_rel_next @ post) rel_next"
proof -
  have e: "pre @ CHR ''<'' # u @ close_rel_next @ post = (pre @ CHR ''<'' # u @ ''>; '') @ rel_next @ post"
    by (simp add: close_rel_next_def)
  show ?thesis unfolding e by (rule includes_str_append)
qed

text \<open>With a match in the header, the two tests before it succeed.\<close>

lemma nextUrl_matchNext:
  "link res = Some h \<Longrightarrow> matchNext h \<noteq> None \<Longrightarrow> nextUrl res = matchNext h"
proof -
  assume l: "link res = Some h" and m: "matchNext h \<noteq> None"
  from m obtain pre u post where h: "h = pre @ CHR ''<'' # u @ close_rel_next @ post"
    using matchNext_None_iff [of h] by auto
  then have "h \<noteq> []" "includes_str h rel_next"
    by (simp_all add: includes_rel_next del: includes_str.simps)
  with l show ?thesis by (simp add: nextUrl_def)
qed

lemma nextUrl_Some_iff:
  "nextUrl res = Some u \<longleftrightarrow>
     (\<exists>h pre post. link res = Some h \<and>
        (h = pre @ CHR ''<'' # u @ close_rel_next @ post \<and> u \<noteq> [] \<and> CHR ''>'' \<notin> set u) \<and>
        (\<forall>pre' u' post'. h = pre' @ CHR ''<'' # u' @ close_rel_next @ post' \<and> u' \<noteq> []
            \<and> CHR ''>'' \<notin> set u' \<longrightarrow> length pre \<le> length pre'))"
proof (cases "link res")
  case None
  then show ?thesis by (simp add: nextUrl_def)
next
  case (Some h)
  show ?thesis
  proof
    assume n: "nextUrl res = Some u"
    with Some have "matchNext h = Some u"
      by (auto simp: nextUrl_def split: if_splits)
    with matchNext_Some_iff [of h u] Some show "\<exists>h pre post. link res = Some h \<and>
        (h = pre @ CHR ''<'' # u @ close_rel_next @ post \<and> u \<noteq> [] \<and> CHR ''>'' \<notin> set u) \<and>
        (\<forall>pre' u' post'. h = pre' @ CHR ''<'' # u' @ close_rel_next @ post' \<and> u' \<noteq> []
            \<and> CHR ''>'' \<notin> set u' \<longrightarrow> length pre \<le> length pre')"
      by blast
  next
    assume "\<exists>h pre post. link res = Some h \<and>
        (h = pre @ CHR ''<'' # u @ close_rel_next @ post \<and> u \<noteq> [] \<and> CHR ''>'' \<notin> set u) \<and>
        (\<forall>pre' u' post'. h = pre' @ CHR ''<'' # u' @ close_rel_next @ post' \<and> u' \<noteq> []
            \<and> CHR ''>'' \<notin> set u' \<longrightarrow> length pre \<le> length pre')"
    with Some have "\<exists>pre post.
        (h = pre @ CHR ''<'' # u @ close_rel_next @ post \<and> u \<noteq> [] \<and> CHR ''>'' \<notin> set u) \<and>
        (\<forall>pre' u' post'. h = pre' @ CHR ''<'' # u' @ close_rel_next @ post' \<and> u' \<noteq> []
            \<and> CHR ''>'' \<notin> set u' \<longrightarrow> length pre \<le> length pre')"
      by simp
    then have m: "matchNext h = Some u" by (simp only: matchNext_Some_iff [of h u])
    then have "matchNext h \<noteq> None" by simp
    from nextUrl_matchNext [OF Some this] m show "nextUrl res = Some u" by simp
  qed
qed

lemma nextUrl_None_iff:
  "nextUrl res = None \<longleftrightarrow>
     (\<forall>h. link res = Some h \<longrightarrow>
        \<not> (\<exists>pre u post. h = pre @ CHR ''<'' # u @ close_rel_next @ post \<and> u \<noteq> []
               \<and> CHR ''>'' \<notin> set u))"
proof (cases "link res")
  case None
  then show ?thesis by (simp add: nextUrl_def)
next
  case (Some h)
  show ?thesis
  proof (cases "matchNext h")
    case None
    then have "nextUrl res = None" using Some by (simp add: nextUrl_def)
    with None Some matchNext_None_iff [of h] show ?thesis by simp
  next
    case (Some u)
    then have m: "matchNext h \<noteq> None" by simp
    from nextUrl_matchNext [OF \<open>link res = Some h\<close> m] Some
    have n: "nextUrl res \<noteq> None" by simp
    from m have "\<exists>pre u post. h = pre @ CHR ''<'' # u @ close_rel_next @ post \<and> u \<noteq> []
               \<and> CHR ''>'' \<notin> set u"
      using matchNext_None_iff [of h] by auto
    with n \<open>link res = Some h\<close> show ?thesis by auto
  qed
qed

lemma nextUrl_simple:
  assumes "link res = Some (CHR ''<'' # u @ close_rel_next @ rest)" "u \<noteq> []" "CHR ''>'' \<notin> set u"
  shows "nextUrl res = Some u"
proof -
  have m: "matchNext (CHR ''<'' # u @ close_rel_next @ rest) = Some u"
    using assms(2,3) by (rule matchNext_simple)
  then have "matchNext (CHR ''<'' # u @ close_rel_next @ rest) \<noteq> None" by simp
  from nextUrl_matchNext [OF assms(1) this] m show ?thesis by simp
qed

section \<open>The link headers of the shop\<close>

lemma link_entry_next: "link_entry n ''next'' = CHR ''<'' # n @ close_rel_next"
  by (simp add: link_entry_def close_rel_next_def rel_next_def)

lemma previous_is_no_match:
  "\<not> startsWith (dropWhile (\<lambda>x. x \<noteq> CHR ''>'')
        (p @ ''>; rel='' @ [CHR 0x22] @ ''previous'' @ [CHR 0x22] @ t)) close_rel_next"
  if "CHR ''>'' \<notin> set p"
proof -
  have all: "\<forall>x \<in> set p. x \<noteq> CHR ''>''" using that by blast
  have "dropWhile (\<lambda>x. x \<noteq> CHR ''>'') (p @ ''>; rel='' @ [CHR 0x22] @ ''previous'' @ [CHR 0x22] @ t)
      = ''>; rel='' @ [CHR 0x22] @ ''previous'' @ [CHR 0x22] @ t"
    using all by (simp add: dropWhile_append2)
  then show ?thesis
    by (simp add: startsWith_def close_rel_next_def rel_next_def)
qed

lemma matchNext_previous:
  assumes "cleanUrl p"
  shows "matchNext (link_entry p ''previous'' @ t) = matchNext t"
proof -
  from assms have p: "CHR ''<'' \<notin> set p" "CHR ''>'' \<notin> set p" by (simp_all add: cleanUrl_def)
  let ?q = "''>; rel='' @ [CHR 0x22] @ ''previous'' @ [CHR 0x22]"
  have e: "link_entry p ''previous'' @ t = CHR ''<'' # (p @ ?q @ t)"
    by (simp add: link_entry_def)
  have a: "matchNext (CHR ''<'' # (p @ ?q @ t)) = matchNext (p @ ?q @ t)"
    using previous_is_no_match [OF p(2), of t] by simp
  have b: "matchNext (p @ ?q @ t) = matchNext t"
    using matchNext_skip [of "p @ ?q" t] p(1) by simp
  show ?thesis unfolding e a b ..
qed

lemma nextUrl_shopify_next:
  assumes n: "cleanUrl n" and p: "cleanUrlOption prv" and l: "link res = shopifyLink prv (Some n)"
  shows "nextUrl res = Some n"
proof -
  from n have n': "n \<noteq> []" "CHR ''>'' \<notin> set n" by (simp_all add: cleanUrl_def)
  have last: "matchNext (link_entry n ''next'') = Some n"
    using matchNext_simple [OF n', of "[]"] by (simp add: link_entry_next)
  show ?thesis
  proof (cases prv)
    case None
    with l have "link res = Some (link_entry n ''next'')" by (simp add: shopifyLink_def)
    from nextUrl_matchNext [OF this] last show ?thesis by simp
  next
    case (Some q)
    with p have q: "cleanUrl q" by (simp add: cleanUrlOption_def)
    from Some l have h: "link res = Some (link_entry q ''previous'' @ '', '' @ link_entry n ''next'')"
      by (simp add: shopifyLink_def)
    have "matchNext (link_entry q ''previous'' @ '', '' @ link_entry n ''next'')
        = matchNext ('', '' @ link_entry n ''next'')"
      using q by (rule matchNext_previous)
    also have "\<dots> = matchNext (link_entry n ''next'')"
      by (rule matchNext_skip) simp
    finally have m: "matchNext (link_entry q ''previous'' @ '', '' @ link_entry n ''next'') = Some n"
      using last by simp
    from nextUrl_matchNext [OF h] m show ?thesis by simp
  qed
qed

lemma nextUrl_shopify_last:
  assumes p: "cleanUrlOption prv" and l: "link res = shopifyLink prv None"
  shows "nextUrl res = None"
proof (cases prv)
  case None
  with l show ?thesis by (simp add: shopifyLink_def nextUrl_def)
next
  case (Some q)
  with p have q: "cleanUrl q" by (simp add: cleanUrlOption_def)
  from Some l have h: "link res = Some (link_entry q ''previous'')"
    by (simp add: shopifyLink_def)
  have "matchNext (link_entry q ''previous'' @ []) = matchNext []"
    using q by (rule matchNext_previous)
  then have "matchNext (link_entry q ''previous'') = None" by simp
  with h show ?thesis by (simp add: nextUrl_def)
qed

section \<open>fetchAllProducts on a finite chain of pages\<close>

lemma fetchAllProducts_from_done:
  "\<not> truthy page \<Longrightarrow> fetchAllProducts_from srv cfg page acc w = Some (Inr acc, w)"
  by (simp add: fetchAllProducts_from.simps [of srv cfg page acc w])

lemma fetchAllProducts_from_page:
  assumes "u \<noteq> []" "shopifyFetch srv (pageRequest cfg u) 5 w = (Inr res, w1)"
    "body_json res = Some d"
  shows "fetchAllProducts_from srv cfg (Some u) acc w =
         fetchAllProducts_from srv cfg (nextUrl res) (acc @ products d) w1"
  using assms by (simp add: fetchAllProducts_from.simps [of srv cfg "Some u" acc w] truthy_def)

lemma fetchAllProducts_from_chain:
  "follows_pages srv cfg w u rs w' \<Longrightarrow> u \<noteq> [] \<Longrightarrow>
   fetchAllProducts_from srv cfg (Some u) acc w =
     Some (Inr (acc @ concat (map pageProducts rs)), w')"
proof (induction rs arbitrary: u w acc)
  case Nil
  then show ?case by simp
next
  case (Cons r rs)
  from Cons.prems(1) obtain w1 where
    f: "shopifyFetch srv (pageRequest cfg u) 5 w = (Inr r, w1)" and
    j: "body_json r \<noteq> None" and
    n: "if rs = [] then nextUrl r = None \<and> w' = w1
        else (case nextUrl r of None \<Rightarrow> False
              | Some u' \<Rightarrow> follows_pages srv cfg w1 u' rs w')"
    by (auto split: prod.splits sum.splits)
  from j obtain d where d: "body_json r = Some d" by auto
  have pp: "pageProducts r = products d" by (simp add: pageProducts_def d)
  have step: "fetchAllProducts_from srv cfg (Some u) acc w =
         fetchAllProducts_from srv cfg (nextUrl r) (acc @ products d) w1"
    using Cons.prems(2) f d by (rule fetchAllProducts_from_page)
  show ?case
  proof (cases "rs = []")
    case True
    with n have "nextUrl r = None" "w' = w1" by simp_all
    then show ?thesis
      using step True by (simp add: fetchAllProducts_from_done truthy_def pp)
  next
    case False
    with n obtain u' where u': "nextUrl r = Some u'" "follows_pages srv cfg w1 u' rs w'"
      by (auto split: option.splits)
    from u'(1) have "u' \<noteq> []" by (rule nextUrl_nonempty)
    from Cons.IH [OF u'(2) this, of "acc @ products d"] step u'(1) show ?thesis
      by (simp add: pp)
  qed
qed

lemma productsUrl_nonempty: "productsUrl cfg \<noteq> []"
  by (simp add: productsUrl_def apiBase_def)

lemma fetchAllProducts_from_returns:
  assumes "fetchAllProducts_from srv cfg page acc w = Some y"
  shows "\<forall>ps w'. y = (Inr ps, w') \<longrightarrow>
           (if truthy page
            then (\<exists>rs. follows_pages srv cfg w (the page) rs w' \<and>
                       ps = acc @ concat (map pageProducts rs))
            else ps = acc \<and> w' = w)"
proof (rule fetchAllProducts_from.raw_induct
    [where P = "\<lambda>srv cfg page acc w y. \<forall>ps w'. y = (Inr ps, w') \<longrightarrow>
           (if truthy page
            then (\<exists>rs. follows_pages srv cfg w (the page) rs w' \<and>
                       ps = acc @ concat (map pageProducts rs))
            else ps = acc \<and> w' = w)", OF _ assms])
  fix f :: "server \<Rightarrow> config \<Rightarrow> string option \<Rightarrow> product list \<Rightarrow> world
     \<Rightarrow> ((error + product list) \<times> world) option"
  fix srv cfg page acc w y
  assume 1: "\<And>srv cfg page acc w y. f srv cfg page acc w = Some y \<Longrightarrow>
      \<forall>ps w'. y = (Inr ps, w') \<longrightarrow>
           (if truthy page
            then (\<exists>rs. follows_pages srv cfg w (the page) rs w' \<and>
                       ps = acc @ concat (map pageProducts rs))
            else ps = acc \<and> w' = w)"
    "(if \<not> truthy page then Some (Inr acc, w)
      else case shopifyFetch srv (pageRequest cfg (the page)) 5 w of
           (Inl e, w1) \<Rightarrow> Some (Inl e, w1)
           | (Inr res, w1) \<Rightarrow>
               case body_json res of None \<Rightarrow> Some (Inl JsonError, w1)
               | Some data \<Rightarrow> f srv cfg (nextUrl res) (acc @ products data) w1) = Some y"
  show "\<forall>ps w'. y = (Inr ps, w') \<longrightarrow>
           (if truthy page
            then (\<exists>rs. follows_pages srv cfg w (the page) rs w' \<and>
                       ps = acc @ concat (map pageProducts rs))
            else ps = acc \<and> w' = w)"
  proof (cases "truthy page")
    case False
    with 1(2) show ?thesis by auto
  next
    case True
    then obtain u where u: "page = Some u" "u \<noteq> []"
      by (auto simp: truthy_def split: option.splits)
    show ?thesis
    proof (intro allI impI)
      fix ps w' assume y: "y = (Inr ps, w')"
      obtain r1 w1 where sf: "shopifyFetch srv (pageRequest cfg u) 5 w = (r1, w1)"
        by (cases "shopifyFetch srv (pageRequest cfg u) 5 w") auto
      from 1(2) True u sf y obtain res d where
        res: "r1 = Inr res" "body_json res = Some d" and
        rec: "f srv cfg (nextUrl res) (acc @ products d) w1 = Some (Inr ps, w')"
        by (auto split: sum.splits option.splits)
      from 1(1) [OF rec] have ih:
        "if truthy (nextUrl res)
         then (\<exists>rs. follows_pages srv cfg w1 (the (nextUrl res)) rs w' \<and>
                    ps = (acc @ products d) @ concat (map pageProducts rs))
         else ps = acc @ products d \<and> w' = w1"
        by blast
      have pp: "pageProducts res = products d" by (simp add: pageProducts_def res(2))
      have "\<exists>rs. follows_pages srv cfg w u rs w' \<and> ps = acc @ concat (map pageProducts rs)"
      proof (cases "nextUrl res")
        case None
        with ih have "ps = acc @ products d" "w' = w1" by (simp_all add: truthy_def)
        then have "follows_pages srv cfg w u [res] w' \<and> ps = acc @ concat (map pageProducts [res])"
          using sf res None by (simp add: pp)
        then show ?thesis by blast
      next
        case (Some u')
        then have "u' \<noteq> []" by (rule nextUrl_nonempty)
        with ih Some obtain rs where
          rs: "follows_pages srv cfg w1 u' rs w'" "ps = (acc @ products d) @ concat (map pageProducts rs)"
          by (auto simp: truthy_def)
        from rs(1) have ne: "rs \<noteq> []" by (cases rs) auto
        have "follows_pages srv cfg w u (res # rs) w' \<and> ps = acc @ concat (map pageProducts (res # rs))"
          using sf res Some rs ne by (simp add: pp)
        then show ?thesis by blast
      qed
      then show "if truthy page
            then (\<exists>rs. follows_pages srv cfg w (the page) rs w' \<and>
                       ps = acc @ concat (map pageProducts rs))
            else ps = acc \<and> w' = w"
        using True u by simp
    qed
  qed
qed

text \<open>A chain of pages with the link headers of the shop is a chain that \<open>nextUrl\<close> follows.\<close>

lemma cursor_pages_follows:
  "cursor_pages srv cfg w u pgs w' \<Longrightarrow> follows_pages srv cfg w u (map fst pgs) w'"
proof (induction pgs arbitrary: u w)
  case Nil
  then show ?case by simp
next
  case (Cons pg pgs)
  obtain r prv nxt where pg: "pg = (r, prv, nxt)" by (cases pg)
  from Cons.prems pg obtain w1 where
    f: "shopifyFetch srv (pageRequest cfg u) 5 w = (Inr r, w1)" and
    j: "body_json r \<noteq> None" and l: "link r = shopifyLink prv nxt" and p: "cleanUrlOption prv" and
    n: "case nxt of None \<Rightarrow> pgs = [] \<and> w' = w1
        | Some u' \<Rightarrow> cleanUrl u' \<and> cursor_pages srv cfg w1 u' pgs w'"
    by (auto split: prod.splits sum.splits)
  show ?case
  proof (cases nxt)
    case None
    with n have e: "pgs = []" "w' = w1" by simp_all
    from l None have "nextUrl r = None" using nextUrl_shopify_last [OF p] by simp
    with f j e pg show ?thesis by simp
  next
    case (Some u')
    with n have c: "cleanUrl u'" and rest: "cursor_pages srv cfg w1 u' pgs w'" by simp_all
    from rest have ne: "pgs \<noteq> []" by (cases pgs) auto
    from l Some have nx: "nextUrl r = Some u'" using nextUrl_shopify_next [OF c p] by simp
    from Cons.IH [OF rest] have "follows_pages srv cfg w1 u' (map fst pgs) w'" .
    with f j nx ne pg show ?thesis by simp
  qed
qed

lemma cursor_pages_last:
  "shopifyFetch srv (pageRequest cfg u) 5 w = (Inr r, w') \<Longrightarrow> body_json r \<noteq> None \<Longrightarrow>
   link r = shopifyLink prv None \<Longrightarrow> cleanUrlOption prv \<Longrightarrow>
   cursor_pages srv cfg w u [(r, prv, None)] w'"
  by simp

lemma cursor_pages_more:
  "shopifyFetch srv (pageRequest cfg u) 5 w = (Inr r, w1) \<Longrightarrow> body_json r \<noteq> None \<Longrightarrow>
   link r = shopifyLink prv (Some u') \<Longrightarrow> cleanUrlOption prv \<Longrightarrow> cleanUrl u' \<Longrightarrow>
   cursor_pages srv cfg w1 u' pgs w' \<Longrightarrow>
   cursor_pages srv cfg w u ((r, prv, Some u') # pgs) w'"
  by simp

section \<open>Claim about fetchAllProducts\<close>

text \<open>
  C4. Whenever the pages \<open>rs\<close> are the chain that starts at the products address and
  follows the next links, ending at a page without one, fetchAllProducts returns, and
  returns the products of these pages concatenated in page order; and every list it
  returns is the concatenation along such a chain. The same holds for a chain of pages
  that is described by the link headers alone: each page carries the header that the
  shop builds from its previous and its next address, and the last page has no next
  address. The address that is followed (\<open>nextUrl\<close>) is the one the header gives with
  \<^verbatim>\<open>rel="next"\<close>: it is \<open>u\<close> exactly when the header is
  \<^verbatim>\<open>pre <u>; rel="next" post\<close> with \<open>u\<close> not empty and free of \<^verbatim>\<open>>\<close>, and no
  such text starts further left; for the headers of the shop it is the next address,
  also behind a previous one. There is no address to follow, and the loop stops,
  exactly when the header is absent or holds no such text; so also when it does not
  contain \<^verbatim>\<open>rel="next"\<close>.
\<close>

theorem fetchAllProducts_follows_next_links:
  "(follows_pages srv cfg w (productsUrl cfg) rs w' \<longrightarrow>
      fetchAllProducts srv cfg w = Some (Inr (concat (map pageProducts rs)), w')) \<and>
   (link res = None \<longrightarrow> nextUrl res = None) \<and>
   (link res = Some h \<and> \<not> includes_str h rel_next \<longrightarrow> nextUrl res = None) \<and>
   (link res = Some (CHR ''<'' # u @ close_rel_next @ rest) \<and> u \<noteq> [] \<and> CHR ''>'' \<notin> set u \<longrightarrow>
      nextUrl res = Some u) \<and>
   (fetchAllProducts srv cfg w = Some (Inr ps, w2) \<longrightarrow>
      (\<exists>pages. follows_pages srv cfg w (productsUrl cfg) pages w2 \<and>
         ps = concat (map pageProducts pages))) \<and>
   (cursor_pages srv cfg w (productsUrl cfg) pgs w3 \<longrightarrow>
      fetchAllProducts srv cfg w = Some (Inr (concat (map (\<lambda>pg. pageProducts (fst pg)) pgs)), w3)) \<and>
   (cleanUrl n \<and> cleanUrlOption prv \<and> link res = shopifyLink prv (Some n) \<longrightarrow>
      nextUrl res = Some n) \<and>
   (cleanUrlOption prv \<and> link res = shopifyLink prv None \<longrightarrow> nextUrl res = None) \<and>
   (nextUrl res = Some u \<longleftrightarrow>
      (\<exists>l pre post. link res = Some l \<and>
         l = pre @ ''<'' @ u @ close_rel_next @ post \<and> u \<noteq> [] \<and> CHR ''>'' \<notin> set u \<and>
         (\<forall>pre' u' post'. l = pre' @ ''<'' @ u' @ close_rel_next @ post' \<and> u' \<noteq> []
             \<and> CHR ''>'' \<notin> set u' \<longrightarrow> length pre \<le> length pre'))) \<and>
   (nextUrl res = None \<longleftrightarrow>
      (\<forall>l. link res = Some l \<longrightarrow>
         \<not> (\<exists>pre u' post. l = pre @ ''<'' @ u' @ close_rel_next @ post \<and> u' \<noteq> []
                \<and> CHR ''>'' \<notin> set u')))"
proof (intro conjI impI)
  assume "follows_pages srv cfg w (productsUrl cfg) rs w'"
  from fetchAllProducts_from_chain [OF this productsUrl_nonempty, of "[]"]
  show "fetchAllProducts srv cfg w = Some (Inr (concat (map pageProducts rs)), w')"
    by (simp add: fetchAllProducts_def)
next
  assume "link res = None"
  then show "nextUrl res = None" by (rule nextUrl_no_header)
next
  assume "link res = Some h \<and> \<not> includes_str h rel_next"
  then show "nextUrl res = None" by (simp add: nextUrl_no_rel_next)
next
  assume "link res = Some (CHR ''<'' # u @ close_rel_next @ rest) \<and> u \<noteq> [] \<and> CHR ''>'' \<notin> set u"
  then show "nextUrl res = Some u" by (simp add: nextUrl_simple)
next
  assume "fetchAllProducts srv cfg w = Some (Inr ps, w2)"
  then have "fetchAllProducts_from srv cfg (Some (productsUrl cfg)) [] w = Some (Inr ps, w2)"
    by (simp add: fetchAllProducts_def)
  from fetchAllProducts_from_returns [OF this]
  show "\<exists>pages. follows_pages srv cfg w (productsUrl cfg) pages w2 \<and>
         ps = concat (map pageProducts pages)"
    by (simp add: truthy_def productsUrl_nonempty)
next
  assume "cursor_pages srv cfg w (productsUrl cfg) pgs w3"
  then have "follows_pages srv cfg w (productsUrl cfg) (map fst pgs) w3"
    by (rule cursor_pages_follows)
  from fetchAllProducts_from_chain [OF this productsUrl_nonempty, of "[]"]
  show "fetchAllProducts srv cfg w = Some (Inr (concat (map (\<lambda>pg. pageProducts (fst pg)) pgs)), w3)"
    by (simp add: fetchAllProducts_def comp_def)
next
  assume "cleanUrl n \<and> cleanUrlOption prv \<and> link res = shopifyLink prv (Some n)"
  then show "nextUrl res = Some n" using nextUrl_shopify_next [of n prv res] by blast
next
  assume "cleanUrlOption prv \<and> link res = shopifyLink prv None"
  then show "nextUrl res = None" using nextUrl_shopify_last [of prv res] by blast
next
  show "nextUrl res = Some u \<longleftrightarrow>
      (\<exists>l pre post. link res = Some l \<and>
         l = pre @ ''<'' @ u @ close_rel_next @ post \<and> u \<noteq> [] \<and> CHR ''>'' \<notin> set u \<and>
         (\<forall>pre' u' post'. l = pre' @ ''<'' @ u' @ close_rel_next @ post' \<and> u' \<noteq> []
             \<and> CHR ''>'' \<notin> set u' \<longrightarrow> length pre \<le> length pre'))"
    unfolding nextUrl_Some_iff [of res u] by simp
next
  show "nextUrl res = None \<longleftrightarrow>
      (\<forall>l. link res = Some l \<longrightarrow>
         \<not> (\<exists>pre u' post. l = pre @ ''<'' @ u' @ close_rel_next @ post \<and> u' \<noteq> []
                \<and> CHR ''>'' \<notin> set u'))"
    unfolding nextUrl_None_iff [of res] by simp
qed

lemmas pages_eval =
  shopifyFetch_def shopifyFetch_from.simps fetch_def two_pages_def pageRequest_def
  productsUrl_def apiBase_def sample_config_def page_response_def nextUrl_def startsWith_def
  rel_next_def close_rel_next_def page2_link_def ok_def world0_def jsonHeaders_def
  sample_product_def three_pages_def shopifyLink_def link_entry_def

theorem fetchAllProducts_follows_next_links_witness:
  "follows_pages two_pages sample_config world0 (productsUrl sample_config)
     [page_response [sample_product 101 ''all-jumpers'' None []] (Some page2_link),
      page_response [sample_product 102 ''slide combos'' None []] None]
     \<lparr>served = 2,
      trace = [Requested (pageRequest sample_config (productsUrl sample_config)),
               Requested (pageRequest sample_config ''https://shop.example/page2'')]\<rparr> \<and>
   fetchAllProducts two_pages sample_config world0 =
     Some (Inr [sample_product 101 ''all-jumpers'' None [], sample_product 102 ''slide combos'' None []],
           \<lparr>served = 2,
            trace = [Requested (pageRequest sample_config (productsUrl sample_config)),
                     Requested (pageRequest sample_config ''https://shop.example/page2'')]\<rparr>) \<and>
   nextUrl (page_response [] (Some page2_link)) = Some ''https://shop.example/page2'' \<and>
   nextUrl (page_response [] None) = None \<and>
   nextUrl (page_response [] (Some ''<https://shop.example/page1>; rel=previous'')) = None \<and>
   (\<exists>pages. follows_pages two_pages sample_config world0 (productsUrl sample_config) pages
       \<lparr>served = 2,
        trace = [Requested (pageRequest sample_config (productsUrl sample_config)),
                 Requested (pageRequest sample_config ''https://shop.example/page2'')]\<rparr> \<and>
      [sample_product 101 ''all-jumpers'' None [], sample_product 102 ''slide combos'' None []]
        = concat (map pageProducts pages)) \<and>
   shopifyLink (Some ''https://shop.example/page1'') (Some ''https://shop.example/page3'') =
     Some (''<https://shop.example/page1>; rel='' @ [CHR 0x22] @ ''previous'' @ [CHR 0x22] @
           '', <https://shop.example/page3>; rel='' @ [CHR 0x22] @ ''next'' @ [CHR 0x22]) \<and>
   cleanUrl ''https://shop.example/page1'' \<and> cleanUrl ''https://shop.example/page2'' \<and>
   cleanUrl ''https://shop.example/page3'' \<and>
   nextUrl (page_response []
       (shopifyLink (Some ''https://shop.example/page1'') (Some ''https://shop.example/page3'')))
     = Some ''https://shop.example/page3'' \<and>
   nextUrl (page_response [] (shopifyLink (Some ''https://shop.example/page2'') None)) = None \<and>
   (\<exists>pre post.
      ''<https://shop.example/page1>; rel='' @ [CHR 0x22] @ ''previous'' @ [CHR 0x22] @
        '', <https://shop.example/page3>; rel='' @ [CHR 0x22] @ ''next'' @ [CHR 0x22]
      = pre @ ''<'' @ ''https://shop.example/page3'' @ close_rel_next @ post) \<and>
   cursor_pages three_pages sample_config world0 (productsUrl sample_config)
     [(page_response [sample_product 101 ''all-jumpers'' None []]
         (shopifyLink None (Some ''https://shop.example/page2'')),
       None, Some ''https://shop.example/page2''),
      (page_response [sample_product 102 ''slide combos'' None []]
         (shopifyLink (Some ''https://shop.example/page1'') (Some ''https://shop.example/page3'')),
       Some ''https://shop.example/page1'', Some ''https://shop.example/page3''),
      (page_response [sample_product 103 ''tents'' None []]
         (shopifyLink (Some ''https://shop.example/page2'') None),
       Some ''https://shop.example/page2'', None)]
     \<lparr>served = 3,
      trace = [Requested (pageRequest sample_config (productsUrl sample_config)),
               Requested (pageRequest sample_config ''https://shop.example/page2''),
               Requested (pageRequest sample_config ''https://shop.example/page3'')]\<rparr> \<and>
   fetchAllProducts three_pages sample_config world0 =
     Some (Inr [sample_product 101 ''all-jumpers'' None [], sample_product 102 ''slide combos'' None [],
                sample_product 103 ''tents'' None []],
           \<lparr>served = 3,
            trace = [Requested (pageRequest sample_config (productsUrl sample_config)),
                     Requested (pageRequest sample_config ''https://shop.example/page2''),
                     Requested (pageRequest sample_config ''https://shop.example/page3'')]\<rparr>)"
proof -
  let ?p1 = "sample_product 101 ''all-jumpers'' None []"
  let ?p2 = "sample_product 102 ''slide combos'' None []"
  let ?p3 = "sample_product 103 ''tents'' None []"
  let ?r1 = "page_response [?p1] (Some page2_link)"
  let ?r2 = "page_response [?p2] None"
  let ?u1 = "''https://shop.example/page1''"
  let ?u2 = "''https://shop.example/page2''"
  let ?u3 = "''https://shop.example/page3''"
  let ?w = "\<lparr>served = 2,
      trace = [Requested (pageRequest sample_config (productsUrl sample_config)),
               Requested (pageRequest sample_config ''https://shop.example/page2'')]\<rparr>"
  let ?a1 = "Requested (pageRequest sample_config (productsUrl sample_config))"
  let ?a2 = "Requested (pageRequest sample_config ?u2)"
  let ?a3 = "Requested (pageRequest sample_config ?u3)"
  let ?w3 = "\<lparr>served = 3, trace = [?a1, ?a2, ?a3]\<rparr>"
  let ?s1 = "page_response [?p1] (shopifyLink None (Some ?u2))"
  let ?s2 = "page_response [?p2] (shopifyLink (Some ?u1) (Some ?u3))"
  let ?s3 = "page_response [?p3] (shopifyLink (Some ?u2) None)"
  let ?pgs = "[(?s1, None, Some ?u2), (?s2, Some ?u1, Some ?u3), (?s3, Some ?u2, None)]"
  have n1: "nextUrl ?r1 = Some ''https://shop.example/page2''"
    by (simp add: pages_eval)
  have f1: "shopifyFetch two_pages (pageRequest sample_config (productsUrl sample_config)) 5 world0 =
      (Inr ?r1, \<lparr>served = Suc 0,
         trace = [Requested (pageRequest sample_config (productsUrl sample_config))]\<rparr>)"
    by (simp add: pages_eval)
  have f2: "shopifyFetch two_pages (pageRequest sample_config ''https://shop.example/page2'') 5
       \<lparr>served = Suc 0, trace = [Requested (pageRequest sample_config (productsUrl sample_config))]\<rparr> =
      (Inr ?r2, ?w)"
    by (simp add: pages_eval)
  have n2: "nextUrl ?r2 = None" by (simp add: nextUrl_def page_response_def)
  have j: "body_json ?r1 \<noteq> None" "body_json ?r2 \<noteq> None" by (simp_all add: page_response_def)
  have chain: "follows_pages two_pages sample_config world0 (productsUrl sample_config) [?r1, ?r2] ?w"
    by (simp add: f1 f2 n1 n2 j)
  have pp: "concat (map pageProducts [?r1, ?r2]) = [?p1, ?p2]"
    by (simp add: pageProducts_def page_response_def)
  have cl: "cleanUrl ?u1" "cleanUrl ?u2" "cleanUrl ?u3"
      "cleanUrlOption None" "cleanUrlOption (Some ?u1)" "cleanUrlOption (Some ?u2)"
    by (simp_all add: cleanUrl_def cleanUrlOption_def)
  have g1: "shopifyFetch three_pages (pageRequest sample_config (productsUrl sample_config)) 5 world0 =
      (Inr ?s1, \<lparr>served = Suc 0, trace = [?a1]\<rparr>)"
    by (simp add: pages_eval)
  have g2: "shopifyFetch three_pages (pageRequest sample_config ?u2) 5
       \<lparr>served = Suc 0, trace = [?a1]\<rparr> = (Inr ?s2, \<lparr>served = Suc (Suc 0), trace = [?a1, ?a2]\<rparr>)"
    by (simp add: pages_eval)
  have g3: "shopifyFetch three_pages (pageRequest sample_config ?u3) 5
       \<lparr>served = Suc (Suc 0), trace = [?a1, ?a2]\<rparr> = (Inr ?s3, ?w3)"
    by (simp add: pages_eval)
  have l: "link ?s1 = shopifyLink None (Some ?u2)" "link ?s2 = shopifyLink (Some ?u1) (Some ?u3)"
      "link ?s3 = shopifyLink (Some ?u2) None"
      "body_json ?s1 \<noteq> None" "body_json ?s2 \<noteq> None" "body_json ?s3 \<noteq> None"
    by (simp_all add: page_response_def)
  have k3: "cursor_pages three_pages sample_config \<lparr>served = Suc (Suc 0), trace = [?a1, ?a2]\<rparr> ?u3
      [(?s3, Some ?u2, None)] ?w3"
    by (rule cursor_pages_last [OF g3 l(6) l(3) cl(6)])
  have k2: "cursor_pages three_pages sample_config \<lparr>served = Suc 0, trace = [?a1]\<rparr> ?u2
      [(?s2, Some ?u1, Some ?u3), (?s3, Some ?u2, None)] ?w3"
    by (rule cursor_pages_more [OF g2 l(5) l(2) cl(5) cl(3) k3])
  have cursor: "cursor_pages three_pages sample_config world0 (productsUrl sample_config) ?pgs ?w3"
    by (rule cursor_pages_more [OF g1 l(4) l(1) cl(4) cl(2) k2])
  have pp3: "concat (map (\<lambda>pg. pageProducts (fst pg)) ?pgs) = [?p1, ?p2, ?p3]"
    by (simp add: pageProducts_def page_response_def)
  have sl: "shopifyLink (Some ?u1) (Some ?u3) =
     Some (''<https://shop.example/page1>; rel='' @ [CHR 0x22] @ ''previous'' @ [CHR 0x22] @
           '', <https://shop.example/page3>; rel='' @ [CHR 0x22] @ ''next'' @ [CHR 0x22])"
    by (simp add: shopifyLink_def link_entry_def)
  note A = fetchAllProducts_follows_next_links [where srv = two_pages and cfg = sample_config
      and w = world0 and rs = "[?r1, ?r2]" and w' = ?w and ps = "[?p1, ?p2]" and ?w2.0 = ?w
      and res = "page_response [] (Some page2_link)" and u = ?u2 and rest = "[]"]
  note B = fetchAllProducts_follows_next_links [where res = "page_response [] None"]
  note C = fetchAllProducts_follows_next_links
      [where res = "page_response [] (Some ''<https://shop.example/page1>; rel=previous'')"
        and h = "''<https://shop.example/page1>; rel=previous''"]
  note D = fetchAllProducts_follows_next_links [where srv = three_pages and cfg = sample_config
      and w = world0 and pgs = ?pgs and ?w3.0 = ?w3
      and res = "page_response [] (shopifyLink (Some ?u1) (Some ?u3))" and prv = "Some ?u1"
      and n = ?u3 and u = ?u3]
  note E = fetchAllProducts_follows_next_links
      [where res = "page_response [] (shopifyLink (Some ?u2) None)" and prv = "Some ?u2"]
  from A [THEN conjunct1] chain
  have r: "fetchAllProducts two_pages sample_config world0 = Some (Inr [?p1, ?p2], ?w)"
    by (simp only: pp)
  have la: "link (page_response [] (Some page2_link))
      = Some (CHR ''<'' # ''https://shop.example/page2'' @ close_rel_next @ [])"
    by (simp add: page_response_def page2_link_def close_rel_next_def)
  from A [THEN conjunct2, THEN conjunct2, THEN conjunct2, THEN conjunct1] la have a: "nextUrl (page_response [] (Some page2_link)) = Some ''https://shop.example/page2''"
    by simp
  from B [THEN conjunct2, THEN conjunct1] have b: "nextUrl (page_response [] None) = None"
    by (simp add: page_response_def)
  have "\<not> includes_str ''<https://shop.example/page1>; rel=previous'' rel_next"
    by (simp add: startsWith_def rel_next_def)
  with C [THEN conjunct2, THEN conjunct2, THEN conjunct1] have c: "nextUrl (page_response [] (Some ''<https://shop.example/page1>; rel=previous'')) = None"
    by (simp add: page_response_def)
  from A [THEN conjunct2, THEN conjunct2, THEN conjunct2, THEN conjunct2, THEN conjunct1] r have d: "\<exists>pages. follows_pages two_pages sample_config world0
       (productsUrl sample_config) pages ?w \<and> [?p1, ?p2] = concat (map pageProducts pages)"
    by (rule mp)
  have ld: "link (page_response [] (shopifyLink (Some ?u1) (Some ?u3)))
      = shopifyLink (Some ?u1) (Some ?u3)"
    "link (page_response [] (shopifyLink (Some ?u2) None)) = shopifyLink (Some ?u2) None"
    by (simp_all add: page_response_def)
  from cl(3,5) ld(1)
  have "cleanUrl ?u3 \<and> cleanUrlOption (Some ?u1) \<and>
      link (page_response [] (shopifyLink (Some ?u1) (Some ?u3))) = shopifyLink (Some ?u1) (Some ?u3)"
    by (intro conjI)
  with D [THEN conjunct2, THEN conjunct2, THEN conjunct2, THEN conjunct2, THEN conjunct2, THEN conjunct2, THEN conjunct1]
  have e: "nextUrl (page_response [] (shopifyLink (Some ?u1) (Some ?u3))) = Some ?u3"
    by (rule mp)
  from cl(6) ld(2)
  have "cleanUrlOption (Some ?u2) \<and>
      link (page_response [] (shopifyLink (Some ?u2) None)) = shopifyLink (Some ?u2) None"
    by (intro conjI)
  with E [THEN conjunct2, THEN conjunct2, THEN conjunct2, THEN conjunct2, THEN conjunct2, THEN conjunct2, THEN conjunct2, THEN conjunct1]
  have f: "nextUrl (page_response [] (shopifyLink (Some ?u2) None)) = None"
    by (rule mp)
  from D [THEN conjunct2, THEN conjunct2, THEN conjunct2, THEN conjunct2, THEN conjunct2, THEN conjunct2, THEN conjunct2, THEN conjunct2, THEN conjunct1] e obtain l pre post where
    x: "link (page_response [] (shopifyLink (Some ?u1) (Some ?u3))) = Some l"
       "l = pre @ ''<'' @ ?u3 @ close_rel_next @ post"
    by blast
  from x(1) have "l = ''<https://shop.example/page1>; rel='' @ [CHR 0x22] @ ''previous'' @ [CHR 0x22] @
        '', <https://shop.example/page3>; rel='' @ [CHR 0x22] @ ''next'' @ [CHR 0x22]"
    using ld(1) sl by (metis option.inject)
  with x(2) have "''<https://shop.example/page1>; rel='' @ [CHR 0x22] @ ''previous'' @ [CHR 0x22] @
        '', <https://shop.example/page3>; rel='' @ [CHR 0x22] @ ''next'' @ [CHR 0x22]
      = pre @ ''<'' @ ''https://shop.example/page3'' @ close_rel_next @ post"
    by (simp only:)
  then have g: "\<exists>pre post.
      ''<https://shop.example/page1>; rel='' @ [CHR 0x22] @ ''previous'' @ [CHR 0x22] @
        '', <https://shop.example/page3>; rel='' @ [CHR 0x22] @ ''next'' @ [CHR 0x22]
      = pre @ ''<'' @ ''https://shop.example/page3'' @ close_rel_next @ post"
    by (intro exI)
  from D [THEN conjunct2, THEN conjunct2, THEN conjunct2, THEN conjunct2, THEN conjunct2, THEN conjunct1] cursor have "fetchAllProducts three_pages sample_config world0 =
      Some (Inr (concat (map (\<lambda>pg. pageProducts (fst pg)) ?pgs)), ?w3)"
    by (rule mp)
  then have h: "fetchAllProducts three_pages sample_config world0 = Some (Inr [?p1, ?p2, ?p3], ?w3)"
    by (simp only: pp3)
  show ?thesis
    by (intro conjI) (fact chain r a b c d sl cl(1-3) e f g cursor h)+
qed

section \<open>Claim about the webhook handler\<close>

text \<open>
  C10. The handler answers 401 exactly when the request is a POST, the secret is
  configured, the header is present and the computed HMAC differs from the header. For
  a POST without the header, or without a configured secret, the answer does not depend
  on the HMAC function at all, and a body that parses to a product with an id goes to
  \<open>processNewProduct\<close>.
\<close>

theorem handler_hmac_only_when_both_present:
  "(statusCode (fst (handler hmac JSON_parse e srv ev w)) = 401 \<longleftrightarrow>
      httpMethod ev = ''POST'' \<and> truthy (SHOPIFY_WEBHOOK_SECRET e) \<and> truthy (hmacHeader ev) \<and>
      hmac (the (SHOPIFY_WEBHOOK_SECRET e)) (event_body ev) \<noteq> the (hmacHeader ev)) \<and>
   (httpMethod ev = ''POST'' \<and> (\<not> truthy (hmacHeader ev) \<or> \<not> truthy (SHOPIFY_WEBHOOK_SECRET e)) \<longrightarrow>
      handler hmac JSON_parse e srv ev w = handler hmac' JSON_parse e srv ev w \<and>
      (JSON_parse (event_body ev) = Some (JProduct p) \<and> product_id p \<noteq> 0 \<longrightarrow>
         handler hmac JSON_parse e srv ev w =
           (case processNewProduct e srv p w of
              (Inr r, w1) \<Rightarrow>
                (\<lparr>statusCode = 200, reply_body = Processed r (product_id p) (title p)\<rparr>, w1)
            | (Inl err, w1) \<Rightarrow>
                (\<lparr>statusCode = 500, reply_body = InternalError err\<rparr>,
                 console (ErrorHandler err) w1))))"
proof (intro conjI impI)
  show "statusCode (fst (handler hmac JSON_parse e srv ev w)) = 401 \<longleftrightarrow>
      httpMethod ev = ''POST'' \<and> truthy (SHOPIFY_WEBHOOK_SECRET e) \<and> truthy (hmacHeader ev) \<and>
      hmac (the (SHOPIFY_WEBHOOK_SECRET e)) (event_body ev) \<noteq> the (hmacHeader ev)"
    by (auto simp: handler_def verifyWebhook_def
        split: option.splits json_value.splits prod.splits sum.splits)
next
  assume a: "httpMethod ev = ''POST'' \<and>
      (\<not> truthy (hmacHeader ev) \<or> \<not> truthy (SHOPIFY_WEBHOOK_SECRET e))"
  then show "handler hmac JSON_parse e srv ev w = handler hmac' JSON_parse e srv ev w"
    by (auto simp: handler_def)
  assume "JSON_parse (event_body ev) = Some (JProduct p) \<and> product_id p \<noteq> 0"
  with a show "handler hmac JSON_parse e srv ev w =
           (case processNewProduct e srv p w of
              (Inr r, w1) \<Rightarrow>
                (\<lparr>statusCode = 200, reply_body = Processed r (product_id p) (title p)\<rparr>, w1)
            | (Inl err, w1) \<Rightarrow>
                (\<lparr>statusCode = 500, reply_body = InternalError err\<rparr>,
                 console (ErrorHandler err) w1))"
    by (auto simp: handler_def)
qed

lemma processNewProduct_complete:
  "processNewProduct sample_env srv complete_product world0 =
     (Inr \<lparr>success = True, changes = False, result_barcodesGenerated = None,
           descriptionAdded = None, partial = None\<rparr>, world0)"
  by (simp add: processNewProduct_def complete_product_def sample_product_def truthy_def
      newProductPayload_def blankDescription_def trim_def isSpace_def)

theorem handler_hmac_only_when_both_present_witness:
  "httpMethod unsigned_event = ''POST'' \<and> \<not> truthy (hmacHeader unsigned_event) \<and>
   sample_parse (event_body unsigned_event) = Some (JProduct complete_product) \<and>
   product_id complete_product \<noteq> 0 \<and>
   handler sample_hmac sample_parse sample_env (scripted []) unsigned_event world0 =
     (\<lparr>statusCode = 200,
       reply_body = Processed \<lparr>success = True, changes = False, result_barcodesGenerated = None,
           descriptionAdded = None, partial = None\<rparr> 101 ''Castle''\<rparr>, world0) \<and>
   handler sample_hmac sample_parse sample_env (scripted []) unsigned_event world0 =
     handler (\<lambda>k d. []) sample_parse sample_env (scripted []) unsigned_event world0 \<and>
   statusCode (fst (handler sample_hmac sample_parse sample_env (scripted []) signed_event world0))
     = 401"
proof -
  have h: "httpMethod unsigned_event = ''POST''" "\<not> truthy (hmacHeader unsigned_event)"
    "sample_parse (event_body unsigned_event) = Some (JProduct complete_product)"
    "product_id complete_product \<noteq> 0"
    by (simp_all add: unsigned_event_def truthy_def sample_parse_def complete_product_def
        sample_product_def)
  note A = handler_hmac_only_when_both_present [of sample_hmac sample_parse sample_env
      "scripted []" unsigned_event world0 "\<lambda>k d. []" complete_product]
  note B = handler_hmac_only_when_both_present [of sample_hmac sample_parse sample_env
      "scripted []" signed_event world0 "\<lambda>k d. []" complete_product]
  from A h have a1: "handler sample_hmac sample_parse sample_env (scripted []) unsigned_event world0 =
     handler (\<lambda>k d. []) sample_parse sample_env (scripted []) unsigned_event world0"
    by blast
  from A h have "handler sample_hmac sample_parse sample_env (scripted []) unsigned_event world0 =
           (case processNewProduct sample_env (scripted []) complete_product world0 of
              (Inr r, w1) \<Rightarrow>
                (\<lparr>statusCode = 200,
                  reply_body = Processed r (product_id complete_product) (title complete_product)\<rparr>,
                 w1)
            | (Inl err, w1) \<Rightarrow>
                (\<lparr>statusCode = 500, reply_body = InternalError err\<rparr>,
                 console (ErrorHandler err) w1))"
    by blast
  then have a2: "handler sample_hmac sample_parse sample_env (scripted []) unsigned_event world0 =
     (\<lparr>statusCode = 200,
       reply_body = Processed \<lparr>success = True, changes = False, result_barcodesGenerated = None,
           descriptionAdded = None, partial = None\<rparr> 101 ''Castle''\<rparr>, world0)"
    by (simp add: processNewProduct_complete) (simp add: complete_product_def sample_product_def)
  have "httpMethod signed_event = ''POST'' \<and> truthy (SHOPIFY_WEBHOOK_SECRET sample_env) \<and>
      truthy (hmacHeader signed_event) \<and>
      sample_hmac (the (SHOPIFY_WEBHOOK_SECRET sample_env)) (event_body signed_event)
        \<noteq> the (hmacHeader signed_event)"
    by (simp add: signed_event_def sample_env_def truthy_def sample_hmac_def)
  with B have b: "statusCode (fst (handler sample_hmac sample_parse sample_env (scripted [])
      signed_event world0)) = 401"
    by blast
  from h a1 a2 b show ?thesis by blast
qed

section \<open>What the helpers leave in the trace\<close>







section \<open>The tag filter\<close>





section \<open>The attempts to find an unused barcode\<close>

section \<open>The loop over the variants\<close>




section \<open>One product of the batch scripts\<close>










section \<open>The updates that the batch scripts request\<close>





section \<open>The batch scripts when every GET request is answered\<close>







section \<open>Claim about the tag filter\<close>







section \<open>Claim about the errors of the batch scripts\<close>














section \<open>Different indices give different codes\<close>







section \<open>The variants of the webhook function\<close>



section \<open>The barcodes at hand\<close>




section \<open>The invariant of the batch script\<close>




section \<open>Claim about what is written\<close>





section \<open>Claim about the uniqueness of the barcodes\<close>








end
